theory Spec2Isabelle
  imports Main "HOL-Library.AList" "HOL-Library.Code_Target_Nat"
begin

section \<open>Values and exceptions\<close>

text \<open>
  The secrets service (\<^verbatim>\<open>services/secrets-service/main.py\<close>) is modelled function by
  function. A Python exception is a value of \<open>error\<close>, and a function that may raise
  returns \<open>error + 'a\<close> with \<open>Inl\<close> for the exception. \<open>HTTPException\<close> carries the
  status code and the detail string of the source; the other constructors are the
  exceptions of the libraries the service calls.

  A Python \<open>str\<close> is modelled by the bytes of its UTF-8 encoding (a \<open>string\<close>), a lone
  surrogate by its three-byte form, so that \<open>str.encode()\<close> and \<open>bytes.decode()\<close> keep
  the bytes and fail exactly on the sequences that are not well-formed UTF-8.
\<close>

datatype error =
    HTTPException nat string
  | JSONDecodeError
  | UnicodeEncodeError
  | UnicodeDecodeError
  | InvalidToken
  | TypeError
  | ConnectionError
  | Timeout
  | ImportError

text \<open>
  The values \<open>parse_tags\<close> can be handed by the database driver or by \<open>json.loads\<close>. A
  float is kept as its lexeme: no claim computes with one.
\<close>

datatype pyval =
    PNone
  | PBool bool
  | PInt int
  | PFloat string
  | PStr string
  | PList "pyval list"
  | PTuple "pyval list"
  | PDict "(string \<times> pyval) list"

section \<open>The JSON decoder used by \<open>parse_tags\<close>\<close>

text \<open>
  \<open>json.loads\<close> is library code. It is modelled after the grammar of CPython's
  \<open>json.decoder\<close> and \<open>json.scanner\<close> in strict mode: whitespace is blank, tab, newline and
  carriage return; strings reject raw control characters and unknown escapes; numbers
  follow \<open>-?(0|[1-9][0-9]*)(\.[0-9]+)?([eE][-+]?[0-9]+)?\<close>; \<open>NaN\<close>, \<open>Infinity\<close> and
  \<open>-Infinity\<close> are accepted; a duplicate key keeps its first position and its last
  value; anything left after the value but whitespace is an error. Every decoding
  failure is the one constructor \<open>JSONDecodeError\<close>. The interpreter's resource limits
  (recursion depth, digits of an integer literal) are not modelled; they raise
  exceptions that \<open>parse_tags\<close> catches like any other.
\<close>

definition is_ws :: "char \<Rightarrow> bool" where
  "is_ws c = (c = CHR '' '' \<or> c = CHR 0x09 \<or> c = CHR 0x0A \<or> c = CHR 0x0D)"

definition skip_ws :: "string \<Rightarrow> string" where
  "skip_ws s = dropWhile is_ws s"

definition is_digit :: "char \<Rightarrow> bool" where
  "is_digit c = (48 \<le> (of_char c :: nat) \<and> (of_char c :: nat) \<le> 57)"

definition digit_val :: "char \<Rightarrow> nat" where
  "digit_val c = of_char c - 48"

definition int_of_digits :: "string \<Rightarrow> int" where
  "int_of_digits ds = int (foldl (\<lambda>acc c. 10 * acc + digit_val c) 0 ds)"

definition hex_val :: "char \<Rightarrow> nat option" where
  "hex_val c =
     (let n = (of_char c :: nat) in
      if 48 \<le> n \<and> n \<le> 57 then Some (n - 48)
      else if 97 \<le> n \<and> n \<le> 102 then Some (n - 87)
      else if 65 \<le> n \<and> n \<le> 70 then Some (n - 55)
      else None)"

fun decode_uXXXX :: "string \<Rightarrow> (nat \<times> string) option" where
  "decode_uXXXX (a # b # c # d # rest) =
     (case (hex_val a, hex_val b, hex_val c, hex_val d) of
        (Some h3, Some h2, Some h1, Some h0) \<Rightarrow>
          Some (4096 * h3 + 256 * h2 + 16 * h1 + h0, rest)
      | _ \<Rightarrow> None)"
| "decode_uXXXX _ = None"

definition utf8_encode :: "nat \<Rightarrow> string" where
  "utf8_encode n =
     (if n < 0x80 then [char_of n]
      else if n < 0x800 then [char_of (0xC0 + n div 64), char_of (0x80 + n mod 64)]
      else if n < 0x10000 then
        [char_of (0xE0 + n div 4096), char_of (0x80 + n div 64 mod 64),
         char_of (0x80 + n mod 64)]
      else
        [char_of (0xF0 + n div 262144), char_of (0x80 + n div 4096 mod 64),
         char_of (0x80 + n div 64 mod 64), char_of (0x80 + n mod 64)])"

definition backslash :: "char \<Rightarrow> char option" where
  "backslash e =
     (if e = CHR 0x22 then Some (CHR 0x22)
      else if e = CHR 0x5C then Some (CHR 0x5C)
      else if e = CHR ''/'' then Some (CHR ''/'')
      else if e = CHR ''b'' then Some (CHR 0x08)
      else if e = CHR ''f'' then Some (CHR 0x0C)
      else if e = CHR ''n'' then Some (CHR 0x0A)
      else if e = CHR ''r'' then Some (CHR 0x0D)
      else if e = CHR ''t'' then Some (CHR 0x09)
      else None)"

text \<open>
  \<open>scan_escape\<close> reads what follows a backslash inside a string and returns the bytes
  it stands for with the rest of the input. A high surrogate followed by an escaped low
  surrogate is one code point.
\<close>

definition scan_escape :: "string \<Rightarrow> (string \<times> string) option" where
  "scan_escape s =
     (case s of
        [] \<Rightarrow> None
      | e # r \<Rightarrow>
          if e = CHR ''u'' then
            (case decode_uXXXX r of
               None \<Rightarrow> None
             | Some (uni, r1) \<Rightarrow>
                 if 0xD800 \<le> uni \<and> uni \<le> 0xDBFF \<and> take 2 r1 = [CHR 0x5C, CHR ''u''] then
                   (case decode_uXXXX (drop 2 r1) of
                      None \<Rightarrow> None
                    | Some (uni2, r2) \<Rightarrow>
                        if 0xDC00 \<le> uni2 \<and> uni2 \<le> 0xDFFF
                        then Some (utf8_encode
                                     (0x10000 + (uni - 0xD800) * 1024 + (uni2 - 0xDC00)), r2)
                        else Some (utf8_encode uni, r1))
                 else Some (utf8_encode uni, r1))
          else (case backslash e of None \<Rightarrow> None | Some ch \<Rightarrow> Some ([ch], r)))"

lemma decode_uXXXX_length: "decode_uXXXX s = Some (n, r) \<Longrightarrow> length r < length s"
  by (induction s rule: decode_uXXXX.induct) (auto split: option.splits)

lemma scan_escape_length: "scan_escape s = Some (bs, r) \<Longrightarrow> length r < length s"
  by (auto simp: scan_escape_def split: list.splits if_splits option.splits prod.splits
           dest!: decode_uXXXX_length)

text \<open>\<open>scanstring acc s\<close> reads a string body up to its closing quote.\<close>

function scanstring :: "string \<Rightarrow> string \<Rightarrow> error + (string \<times> string)" where
  "scanstring acc [] = Inl JSONDecodeError"
| "scanstring acc (c # cs) =
     (if c = CHR 0x22 then Inr (acc, cs)
      else if c = CHR 0x5C then
        (case scan_escape cs of
           None \<Rightarrow> Inl JSONDecodeError
         | Some (bs, r) \<Rightarrow> scanstring (acc @ bs) r)
      else if (of_char c :: nat) < 0x20 then Inl JSONDecodeError
      else scanstring (acc @ [c]) cs)"
  by pat_completeness auto
termination
  by (relation "measure (\<lambda>(acc, s). length s)") (auto dest: scan_escape_length)

text \<open>
  The parts of \<open>NUMBER_RE\<close>, each read at the front of what the part before it left:
  the sign, the integer part, the fraction and the exponent.
\<close>

definition number_sign :: "string \<Rightarrow> string" where
  "number_sign s = (case s of c # r \<Rightarrow> if c = CHR ''-'' then [c] else [] | [] \<Rightarrow> [])"

definition number_int :: "string \<Rightarrow> string" where
  "number_int s =
     (case s of
        c # r \<Rightarrow> if c = CHR ''0'' then [c]
                 else if is_digit c then takeWhile is_digit s else []
      | [] \<Rightarrow> [])"

definition number_frac :: "string \<Rightarrow> string" where
  "number_frac s =
     (case s of
        c # r \<Rightarrow> if c = CHR ''.'' \<and> takeWhile is_digit r \<noteq> []
                 then c # takeWhile is_digit r else []
      | [] \<Rightarrow> [])"

definition number_exp :: "string \<Rightarrow> string" where
  "number_exp s =
     (case s of
        c # r \<Rightarrow>
          if c = CHR ''e'' \<or> c = CHR ''E'' then
            (let sg = (case r of
                         d # _ \<Rightarrow> if d = CHR ''-'' \<or> d = CHR ''+'' then [d] else []
                       | [] \<Rightarrow> []);
                 ds = takeWhile is_digit (drop (length sg) r)
             in if ds \<noteq> [] then c # sg @ ds else [])
          else []
      | [] \<Rightarrow> [])"

definition match_number :: "string \<Rightarrow> (pyval \<times> string) option" where
  "match_number s =
     (let sign = number_sign s;
          s1 = drop (length sign) s;
          ipart = number_int s1;
          s2 = drop (length ipart) s1;
          frac = number_frac s2;
          s3 = drop (length frac) s2;
          expo = number_exp s3;
          s4 = drop (length expo) s3
      in if ipart = [] then None
         else if frac = [] \<and> expo = []
         then Some (PInt ((if sign = [] then 1 else - 1) * int_of_digits ipart), s4)
         else Some (PFloat (sign @ ipart @ frac @ expo), s4))"

text \<open>
  The constants and numbers of \<open>_scan_once\<close>, in the order the scanner tries them.
\<close>

definition scan_atom :: "string \<Rightarrow> (pyval \<times> string) option" where
  "scan_atom s =
     (if take 4 s = ''null'' then Some (PNone, drop 4 s)
      else if take 4 s = ''true'' then Some (PBool True, drop 4 s)
      else if take 5 s = ''false'' then Some (PBool False, drop 5 s)
      else
        (case match_number s of
           Some (v, rest) \<Rightarrow> Some (v, rest)
         | None \<Rightarrow>
             if take 3 s = ''NaN'' then Some (PFloat ''nan'', drop 3 s)
             else if take 8 s = ''Infinity'' then Some (PFloat ''inf'', drop 8 s)
             else if take 9 s = ''-Infinity'' then Some (PFloat ''-inf'', drop 9 s)
             else None))"

lemma scanstring_length: "scanstring acc s = Inr (str, r) \<Longrightarrow> length r < length s"
proof (induction acc s rule: scanstring.induct)
  case (1 acc)
  then show ?case by simp
next
  case (2 acc c cs)
  then show ?case
    by (fastforce split: if_splits option.splits dest: scan_escape_length)
qed

lemma skip_ws_length: "length (skip_ws s) \<le> length s"
  by (simp add: skip_ws_def length_dropWhile_le)

lemma skip_ws_Cons_length: "skip_ws s = c # r \<Longrightarrow> length r < length s"
  using skip_ws_length [of s] by simp

lemma skip_ws_length_less: "length r < n \<Longrightarrow> length (skip_ws r) < n"
  using skip_ws_length [of r] by simp

lemma number_int_nonempty: "number_int s \<noteq> [] \<Longrightarrow> s \<noteq> []"
  by (auto simp: number_int_def)

lemma match_number_length:
  assumes "match_number s = Some (v, r)"
  shows "length r < length s"
proof -
  let ?s1 = "drop (length (number_sign s)) s"
  let ?s2 = "drop (length (number_int ?s1)) ?s1"
  let ?s3 = "drop (length (number_frac ?s2)) ?s2"
  let ?s4 = "drop (length (number_exp ?s3)) ?s3"
  from assms have ne: "number_int ?s1 \<noteq> []" and r: "r = ?s4"
    by (auto simp: match_number_def Let_def split: if_splits)
  from ne have "?s1 \<noteq> []" by (rule number_int_nonempty)
  with ne have "length ?s2 < length ?s1" by (cases "number_int ?s1") auto
  moreover have "length ?s4 \<le> length ?s2" by simp
  moreover have "length ?s1 \<le> length s" by simp
  ultimately have "length ?s4 < length s" by linarith
  then show ?thesis by (simp only: r)
qed

lemma drop_take_less: "take n s = x \<Longrightarrow> x \<noteq> [] \<Longrightarrow> length (drop n s) < length s"
  by (cases n; cases s) auto

lemma scan_atom_length:
  assumes "scan_atom s = Some (v, r)"
  shows "length r < length s"
  using assms unfolding scan_atom_def
  by (auto split: if_splits option.splits dest: match_number_length drop_take_less)

text \<open>
  \<open>scan_once\<close> reads one value; \<open>parse_array\<close> and \<open>parse_object\<close> are the loops of
  \<open>JSONArray\<close> and \<open>JSONObject\<close>, entered after the opening bracket (for an object, after
  the opening quote of the first key). The tests \<open>length r1 < length s\<close> before the two
  loops go round again make the recursion well-founded; \<open>scan_once_length\<close> below
  shows that they always hold.
\<close>

function scan_once :: "string \<Rightarrow> error + (pyval \<times> string)"
  and parse_array :: "pyval list \<Rightarrow> string \<Rightarrow> error + (pyval \<times> string)"
  and parse_object :: "(string \<times> pyval) list \<Rightarrow> string \<Rightarrow> error + (pyval \<times> string)"
where
  "scan_once [] = Inl JSONDecodeError"
| "scan_once (c # r) =
     (if c = CHR 0x22 then
        (case scanstring [] r of
           Inl e \<Rightarrow> Inl e
         | Inr (str, rest) \<Rightarrow> Inr (PStr str, rest))
      else if c = CHR ''{'' then
        (case skip_ws r of
           [] \<Rightarrow> Inl JSONDecodeError
         | d # r1 \<Rightarrow>
             if d = CHR ''}'' then Inr (PDict [], r1)
             else if d = CHR 0x22 then parse_object [] r1
             else Inl JSONDecodeError)
      else if c = CHR ''['' then
        (case skip_ws r of
           [] \<Rightarrow> parse_array [] []
         | d # r1 \<Rightarrow>
             if d = CHR '']'' then Inr (PList [], r1)
             else parse_array [] (d # r1))
      else
        (case scan_atom (c # r) of
           Some (v, rest) \<Rightarrow> Inr (v, rest)
         | None \<Rightarrow> Inl JSONDecodeError))"
| "parse_array values s =
     (case scan_once s of
        Inl e \<Rightarrow> Inl e
      | Inr (v, rest) \<Rightarrow>
          (case skip_ws rest of
             [] \<Rightarrow> Inl JSONDecodeError
           | d # r1 \<Rightarrow>
               if d = CHR '']'' then Inr (PList (values @ [v]), r1)
               else if d = CHR '','' then
                 (if length r1 < length s then parse_array (values @ [v]) (skip_ws r1)
                  else Inl JSONDecodeError)
               else Inl JSONDecodeError))"
| "parse_object pairs s =
     (case scanstring [] s of
        Inl e \<Rightarrow> Inl e
      | Inr (key, r1) \<Rightarrow>
          (case skip_ws r1 of
             [] \<Rightarrow> Inl JSONDecodeError
           | d # r2 \<Rightarrow>
               if d \<noteq> CHR '':'' then Inl JSONDecodeError
               else
                 (case scan_once (skip_ws r2) of
                    Inl e \<Rightarrow> Inl e
                  | Inr (v, r3) \<Rightarrow>
                      (case skip_ws r3 of
                         [] \<Rightarrow> Inl JSONDecodeError
                       | d' # r4 \<Rightarrow>
                           if d' = CHR ''}'' then Inr (PDict (AList.update key v pairs), r4)
                           else if d' = CHR '','' then
                             (case skip_ws r4 of
                                [] \<Rightarrow> Inl JSONDecodeError
                              | q # r5 \<Rightarrow>
                                  if q \<noteq> CHR 0x22 then Inl JSONDecodeError
                                  else if length r5 < length s
                                  then parse_object (AList.update key v pairs) r5
                                  else Inl JSONDecodeError)
                           else Inl JSONDecodeError))))"
  by pat_completeness auto
termination
  by (relation "measures [\<lambda>x. case x of Inl s \<Rightarrow> length s
                                   | Inr (Inl (vs, s)) \<Rightarrow> length s
                                   | Inr (Inr (ps, s)) \<Rightarrow> length s,
                          \<lambda>x. case x of Inl s \<Rightarrow> 0 | Inr _ \<Rightarrow> 1]")
     (auto dest!: scanstring_length skip_ws_Cons_length intro: skip_ws_length_less)

declare parse_array.simps [simp del] parse_object.simps [simp del]

text \<open>
  A value that is read takes at least one character, so the two tests on the length in
  the loops never fail: the loops are those of the decoder.
\<close>

lemma scan_once_length_aux:
  "(\<forall>v r. scan_once s = Inr (v, r) \<longrightarrow> length r < length s)"
  "(\<forall>v r. parse_array vs s' = Inr (v, r) \<longrightarrow> length r < length s')"
  "(\<forall>v r. parse_object ps s'' = Inr (v, r) \<longrightarrow> length r < length s'')"
proof (induction s and vs s' and ps s'' rule: scan_once_parse_array_parse_object.induct)
  case 1
  then show ?case by simp
next
  case (2 c r)
  show ?case
  proof (intro allI impI)
    fix v rest
    assume A: "scan_once (c # r) = Inr (v, rest)"
    consider (str) "c = CHR 0x22"
      | (obj) "c \<noteq> CHR 0x22" "c = CHR ''{''"
      | (arr) "c \<noteq> CHR 0x22" "c \<noteq> CHR ''{''" "c = CHR ''[''"
      | (atom) "c \<noteq> CHR 0x22" "c \<noteq> CHR ''{''" "c \<noteq> CHR ''[''"
      by blast
    then show "length rest < length (c # r)"
    proof cases
      case str
      with A obtain str' where "scanstring [] r = Inr (str', rest)"
        by (auto split: sum.splits)
      from scanstring_length [OF this] show ?thesis by simp
    next
      case obj
      show ?thesis
      proof (cases "skip_ws r")
        case Nil
        with A obj show ?thesis by simp
      next
        case (Cons d r1)
        note len = skip_ws_Cons_length [OF Cons]
        show ?thesis
        proof (cases "d = CHR ''}''")
          case True
          with A obj Cons len show ?thesis by simp
        next
          case False
          show ?thesis
          proof (cases "d = CHR 0x22")
            case True
            with A obj Cons False have "parse_object [] r1 = Inr (v, rest)" by simp
            with "2.IH"(1) [OF obj Cons False True] have "length rest < length r1" by blast
            with len show ?thesis by simp
          next
            case F2: False
            with A obj Cons False show ?thesis by simp
          qed
        qed
      qed
    next
      case arr
      show ?thesis
      proof (cases "skip_ws r")
        case Nil
        with A arr have "parse_array [] [] = Inr (v, rest)" by simp
        with "2.IH"(2) [OF arr Nil] show ?thesis by auto
      next
        case (Cons d r1)
        note len = skip_ws_Cons_length [OF Cons]
        show ?thesis
        proof (cases "d = CHR '']''")
          case True
          with A arr Cons len show ?thesis by simp
        next
          case False
          with A arr Cons have "parse_array [] (d # r1) = Inr (v, rest)" by simp
          with "2.IH"(3) [OF arr Cons False] have "length rest < length (d # r1)" by blast
          with len show ?thesis by simp
        qed
      qed
    next
      case atom
      with A have "scan_atom (c # r) = Some (v, rest)"
        by (auto split: option.splits)
      from scan_atom_length [OF this] show ?thesis .
    qed
  qed
next
  case (3 "values" s)
  show ?case
  proof (intro allI impI)
    fix v rest
    assume A: "parse_array values s = Inr (v, rest)"
    then obtain v1 rest1 where so: "scan_once s = Inr (v1, rest1)"
      by (auto simp: parse_array.simps split: sum.splits)
    with "3.IH"(1) have l1: "length rest1 < length s" by blast
    from A so obtain d r1 where sk: "skip_ws rest1 = d # r1"
      by (cases "skip_ws rest1") (auto simp: parse_array.simps)
    note l2 = skip_ws_Cons_length [OF sk]
    show "length rest < length s"
    proof (cases "d = CHR '']''")
      case True
      with A so sk have "rest = r1" by (simp add: parse_array.simps)
      with l1 l2 show ?thesis by simp
    next
      case False
      with A so sk have dc: "d = CHR '',''" and g: "length r1 < length s"
        and rec: "parse_array (values @ [v1]) (skip_ws r1) = Inr (v, rest)"
        by (auto simp: parse_array.simps split: if_splits)
      from "3.IH"(2) [OF so refl sk False dc g] rec
      have "length rest < length (skip_ws r1)" by blast
      with skip_ws_length [of r1] g show ?thesis by linarith
    qed
  qed
next
  case (4 pairs s)
  show ?case
  proof (intro allI impI)
    fix v rest
    assume A: "parse_object pairs s = Inr (v, rest)"
    then obtain key r1 where ss: "scanstring [] s = Inr (key, r1)"
      by (auto simp: parse_object.simps split: sum.splits)
    note l0 = scanstring_length [OF ss]
    from A ss obtain d r2 where sk1: "skip_ws r1 = d # r2"
      by (cases "skip_ws r1") (auto simp: parse_object.simps)
    note l1 = skip_ws_Cons_length [OF sk1]
    from A ss sk1 have dc: "\<not> d \<noteq> CHR '':''"
      by (auto simp: parse_object.simps split: if_splits)
    from A ss sk1 dc obtain v1 r3 where so: "scan_once (skip_ws r2) = Inr (v1, r3)"
      by (auto simp: parse_object.simps split: sum.splits)
    from "4.IH"(1) [OF ss refl sk1 dc] so have l2: "length r3 < length (skip_ws r2)"
      by blast
    from A ss sk1 dc so obtain d' r4 where sk2: "skip_ws r3 = d' # r4"
      by (cases "skip_ws r3") (auto simp: parse_object.simps)
    note l3 = skip_ws_Cons_length [OF sk2]
    show "length rest < length s"
    proof (cases "d' = CHR ''}''")
      case True
      with A ss sk1 dc so sk2 have "rest = r4" by (simp add: parse_object.simps)
      moreover from l0 l1 l2 l3 skip_ws_length [of r2] have "length r4 < length s"
        by linarith
      ultimately show ?thesis by simp
    next
      case False
      with A ss sk1 dc so sk2 have dc': "d' = CHR '',''"
        by (auto simp: parse_object.simps split: if_splits)
      from A ss sk1 dc so sk2 False dc' obtain q r5 where sk3: "skip_ws r4 = q # r5"
        by (cases "skip_ws r4") (auto simp: parse_object.simps)
      from A ss sk1 dc so sk2 False dc' sk3
      have qc: "\<not> q \<noteq> CHR 0x22" and g: "length r5 < length s"
        and rec: "parse_object (AList.update key v1 pairs) r5 = Inr (v, rest)"
        by (auto simp: parse_object.simps split: if_splits)
      from "4.IH"(2) [OF ss refl sk1 dc so refl sk2 False dc' sk3 qc g] rec
      have "length rest < length r5" by blast
      with g show ?thesis by linarith
    qed
  qed
qed
lemma scan_once_length: "scan_once s = Inr (v, r) \<Longrightarrow> length r < length s"
  using scan_once_length_aux(1) by blast

lemma parse_array_unguarded:
  "parse_array values s =
     (case scan_once s of
        Inl e \<Rightarrow> Inl e
      | Inr (v, rest) \<Rightarrow>
          (case skip_ws rest of
             [] \<Rightarrow> Inl JSONDecodeError
           | d # r1 \<Rightarrow>
               if d = CHR '']'' then Inr (PList (values @ [v]), r1)
               else if d = CHR '','' then parse_array (values @ [v]) (skip_ws r1)
               else Inl JSONDecodeError))"
  by (subst parse_array.simps)
     (auto split: sum.splits list.splits dest!: scan_once_length skip_ws_Cons_length)

lemma parse_object_unguarded:
  "parse_object pairs s =
     (case scanstring [] s of
        Inl e \<Rightarrow> Inl e
      | Inr (key, r1) \<Rightarrow>
          (case skip_ws r1 of
             [] \<Rightarrow> Inl JSONDecodeError
           | d # r2 \<Rightarrow>
               if d \<noteq> CHR '':'' then Inl JSONDecodeError
               else
                 (case scan_once (skip_ws r2) of
                    Inl e \<Rightarrow> Inl e
                  | Inr (v, r3) \<Rightarrow>
                      (case skip_ws r3 of
                         [] \<Rightarrow> Inl JSONDecodeError
                       | d' # r4 \<Rightarrow>
                           if d' = CHR ''}'' then Inr (PDict (AList.update key v pairs), r4)
                           else if d' = CHR '','' then
                             (case skip_ws r4 of
                                [] \<Rightarrow> Inl JSONDecodeError
                              | q # r5 \<Rightarrow>
                                  if q \<noteq> CHR 0x22 then Inl JSONDecodeError
                                  else parse_object (AList.update key v pairs) r5)
                           else Inl JSONDecodeError))))"
proof -
  have "length r5 < length s"
    if "scanstring [] s = Inr (key, r1)" "skip_ws r1 = d # r2"
      "scan_once (skip_ws r2) = Inr (v, r3)" "skip_ws r3 = d' # r4" "skip_ws r4 = q # r5"
    for key r1 d r2 v r3 d' r4 q r5
    using scanstring_length [OF that(1)] skip_ws_Cons_length [OF that(2)]
      skip_ws_length [of r2] scan_once_length [OF that(3)]
      skip_ws_Cons_length [OF that(4)] skip_ws_Cons_length [OF that(5)]
    by linarith
  then show ?thesis
    by (subst parse_object.simps) (auto split: sum.splits list.splits)
qed

definition json_loads :: "string \<Rightarrow> error + pyval" where
  "json_loads s =
     (case scan_once (skip_ws s) of
        Inl e \<Rightarrow> Inl e
      | Inr (v, rest) \<Rightarrow> if skip_ws rest = [] then Inr v else Inl JSONDecodeError)"

section \<open>Tag decoding\<close>

text \<open>
  \<^verbatim>\<open>
  def parse_tags(tags):
      if tags is None: return []
      if isinstance(tags, (list, tuple)): return list(tags)
      if isinstance(tags, str):
          try: return json.loads(tags)
          except: return [tags]
      return []
  \<close>
  The bare \<open>except\<close> catches every exception of the decoder.
\<close>

fun parse_tags :: "pyval \<Rightarrow> error + pyval" where
  "parse_tags PNone = Inr (PList [])"
| "parse_tags (PList xs) = Inr (PList xs)"
| "parse_tags (PTuple xs) = Inr (PList xs)"
| "parse_tags (PStr s) =
     (case json_loads s of
        Inr v \<Rightarrow> Inr v
      | Inl e \<Rightarrow> Inr (PList [PStr s]))"
| "parse_tags _ = Inr (PList [])"

section \<open>Text as bytes, and the JSON encoder\<close>

text \<open>
  \<open>utf8_valid\<close> holds of the byte sequences \<open>bytes.decode()\<close> accepts, which are the
  encodings of the strings \<open>str.encode()\<close> accepts: well-formed UTF-8, no surrogate.
\<close>

definition is_cont :: "char \<Rightarrow> bool" where
  "is_cont c = (0x80 \<le> (of_char c :: nat) \<and> (of_char c :: nat) \<le> 0xBF)"

fun utf8_valid :: "string \<Rightarrow> bool" where
  "utf8_valid [] = True"
| "utf8_valid (c # cs) =
     (let b = (of_char c :: nat) in
      if b < 0x80 then utf8_valid cs
      else if 0xC2 \<le> b \<and> b \<le> 0xDF then
        (case cs of
           c1 # r \<Rightarrow> is_cont c1 \<and> utf8_valid r
         | _ \<Rightarrow> False)
      else if 0xE0 \<le> b \<and> b \<le> 0xEF then
        (case cs of
           c1 # c2 # r \<Rightarrow>
             is_cont c1 \<and> is_cont c2 \<and>
             (if b = 0xE0 then 0xA0 \<le> (of_char c1 :: nat) else True) \<and>
             (if b = 0xED then (of_char c1 :: nat) \<le> 0x9F else True) \<and>
             utf8_valid r
         | _ \<Rightarrow> False)
      else if 0xF0 \<le> b \<and> b \<le> 0xF4 then
        (case cs of
           c1 # c2 # c3 # r \<Rightarrow>
             is_cont c1 \<and> is_cont c2 \<and> is_cont c3 \<and>
             (if b = 0xF0 then 0x90 \<le> (of_char c1 :: nat) else True) \<and>
             (if b = 0xF4 then (of_char c1 :: nat) \<le> 0x8F else True) \<and>
             utf8_valid r
         | _ \<Rightarrow> False)
      else False)"

definition str_encode :: "string \<Rightarrow> error + string" where
  "str_encode s = (if utf8_valid s then Inr s else Inl UnicodeEncodeError)"

definition bytes_decode :: "string \<Rightarrow> error + string" where
  "bytes_decode b = (if utf8_valid b then Inr b else Inl UnicodeDecodeError)"

text \<open>
  The code points of a string, for the encoder's \<open>ensure_ascii\<close>. A byte that starts
  no sequence stands for itself; no well-formed string has one.
\<close>

fun utf8_codepoints :: "string \<Rightarrow> nat list" where
  "utf8_codepoints [] = []"
| "utf8_codepoints (c # cs) =
     (let b = (of_char c :: nat) in
      if 0xC0 \<le> b \<and> b < 0xE0 then
        (case cs of
           c1 # r \<Rightarrow> ((b - 0xC0) * 64 + (of_char c1 - 0x80)) # utf8_codepoints r
         | _ \<Rightarrow> b # utf8_codepoints cs)
      else if 0xE0 \<le> b \<and> b < 0xF0 then
        (case cs of
           c1 # c2 # r \<Rightarrow>
             ((b - 0xE0) * 4096 + (of_char c1 - 0x80) * 64 + (of_char c2 - 0x80))
               # utf8_codepoints r
         | _ \<Rightarrow> b # utf8_codepoints cs)
      else if 0xF0 \<le> b \<and> b < 0xF8 then
        (case cs of
           c1 # c2 # c3 # r \<Rightarrow>
             ((b - 0xF0) * 262144 + (of_char c1 - 0x80) * 4096 + (of_char c2 - 0x80) * 64
                + (of_char c3 - 0x80)) # utf8_codepoints r
         | _ \<Rightarrow> b # utf8_codepoints cs)
      else b # utf8_codepoints cs)"

definition hex4 :: "nat \<Rightarrow> string" where
  "hex4 n = map (\<lambda>d. ''0123456789abcdef'' ! d)
              [n div 4096 mod 16, n div 256 mod 16, n div 16 mod 16, n mod 16]"

definition escape_codepoint :: "nat \<Rightarrow> string" where
  "escape_codepoint cp =
     (if cp = 0x22 then [CHR 0x5C, CHR 0x22]
      else if cp = 0x5C then [CHR 0x5C, CHR 0x5C]
      else if cp = 0x0A then [CHR 0x5C, CHR ''n'']
      else if cp = 0x0D then [CHR 0x5C, CHR ''r'']
      else if cp = 0x09 then [CHR 0x5C, CHR ''t'']
      else if cp = 0x08 then [CHR 0x5C, CHR ''b'']
      else if cp = 0x0C then [CHR 0x5C, CHR ''f'']
      else if 0x20 \<le> cp \<and> cp \<le> 0x7E then [char_of cp]
      else if 0x10000 \<le> cp then
        [CHR 0x5C, CHR ''u''] @ hex4 (0xD800 + (cp - 0x10000) div 1024) @
        [CHR 0x5C, CHR ''u''] @ hex4 (0xDC00 + (cp - 0x10000) mod 1024)
      else [CHR 0x5C, CHR ''u''] @ hex4 cp)"

definition encode_basestring_ascii :: "string \<Rightarrow> string" where
  "encode_basestring_ascii s =
     [CHR 0x22] @ concat (map escape_codepoint (utf8_codepoints s)) @ [CHR 0x22]"

fun join :: "string \<Rightarrow> string list \<Rightarrow> string" where
  "join sep [] = []"
| "join sep [x] = x"
| "join sep (x # y # ys) = x @ sep @ join sep (y # ys)"

text \<open>\<open>json.dumps\<close> on what the service passes it: \<open>None\<close> or a list of strings.\<close>

definition json_dumps :: "string list option \<Rightarrow> string" where
  "json_dumps v =
     (case v of
        None \<Rightarrow> ''null''
      | Some xs \<Rightarrow> ''['' @ join '', '' (map encode_basestring_ascii xs) @ '']'')"

section \<open>The store, the caller and the collaborators\<close>

text \<open>
  The tables \<open>secrets\<close>, \<open>secret_versions\<close> and \<open>users\<close> are lists of rows in insertion
  order. Their declarations are not part of the service's source: the columns are those
  its statements name, \<open>id\<close> comes from a sequence, \<open>created_at\<close> and \<open>updated_at\<close>
  default to the time of the insert, and \<open>deleted_at\<close> to \<open>NULL\<close>. A timestamp is a
  number; integer columns are unbounded.
\<close>

record secret_row =
  row_id :: int
  name :: string
  stype :: string
  encrypted_value :: string
  description :: "string option"
  tags :: string
  owner_id :: int
  version :: int
  created_at :: nat
  updated_at :: nat
  deleted_at :: "nat option"

record secret_version_row =
  sv_secret_id :: int
  sv_version :: int
  sv_encrypted_value :: string
  sv_updated_by :: int
  sv_created_at :: nat

record user_row =
  user_row_id :: int
  user_row_email :: string

record database =
  secrets :: "secret_row list"
  secret_versions :: "secret_version_row list"
  users :: "user_row list"
  secrets_id_seq :: int

text \<open>The verified token payload every endpoint receives as \<open>user\<close>.\<close>

record identity =
  user_id :: int
  email :: string
  role :: string

text \<open>The request bodies \<open>SecretCreate\<close> and \<open>SecretUpdate\<close>.\<close>

record SecretCreate =
  c_name :: string
  c_type :: string
  c_value :: string
  c_description :: "string option"
  c_tags :: "string list option"

record SecretUpdate =
  u_value :: "string option"
  u_description :: "string option"
  u_tags :: "string list option"

record audit_event =
  ev_user_id :: int
  ev_user_email :: string
  ev_action :: string
  ev_secret_id :: int
  ev_timestamp :: string

text \<open>
  What a call depends on besides its arguments and the store: the cipher (\<open>Fernet\<close>
  under the process key; \<open>fernet_encrypt\<close> is the token this call's encryption yields,
  \<open>fernet_decrypt\<close> is \<open>None\<close> where \<open>decrypt\<close> raises \<open>InvalidToken\<close>), the clocks of
  the database and of the service, the outcome of \<open>requests.post\<close> to the audit service
  (an exception or a status code), the draws of \<open>secrets.choice\<close>, and the value the
  driver returns for the text held in a \<open>tags\<close> column.
\<close>

record env =
  fernet_encrypt :: "string \<Rightarrow> string"
  fernet_decrypt :: "string \<Rightarrow> string option"
  db_now :: nat
  datetime_now :: string
  requests_post :: "audit_event \<Rightarrow> error + nat"
  randbelow :: "nat \<Rightarrow> nat \<Rightarrow> nat"
  tags_column :: "string \<Rightarrow> pyval"

text \<open>
  The state between calls: the committed store, and the calls made to the audit
  service with the outcome of each.
\<close>

record system =
  db :: database
  audit_posts :: "(audit_event \<times> (error + nat)) list"

section \<open>The crypto envelope\<close>

text \<open>
  \<^verbatim>\<open>
  def encrypt_value(value): return cipher.encrypt(value.encode()).decode()
  def decrypt_value(encrypted_value): return cipher.decrypt(encrypted_value.encode()).decode()
  \<close>
\<close>

definition encrypt_value :: "env \<Rightarrow> string \<Rightarrow> error + string" where
  "encrypt_value e v =
     (case str_encode v of
        Inl x \<Rightarrow> Inl x
      | Inr b \<Rightarrow> bytes_decode (fernet_encrypt e b))"

definition decrypt_value :: "env \<Rightarrow> string \<Rightarrow> error + string" where
  "decrypt_value e encrypted =
     (case str_encode encrypted of
        Inl x \<Rightarrow> Inl x
      | Inr b \<Rightarrow>
          (case fernet_decrypt e b of
             None \<Rightarrow> Inl InvalidToken
           | Some plain \<Rightarrow> bytes_decode plain))"

section \<open>The cipher: Fernet\<close>

text \<open>
  The \<open>cipher\<close> of the service is \<open>Fernet(SECRET_KEY)\<close> of the \<open>cryptography\<close> package,
  which is not part of the repository. This section writes out the construction that the
  package's \<open>fernet.py\<close> implements, so that the round trip of the envelope can be derived
  and need not be assumed. The two cryptographic primitives stay parameters: the AES
  block function under a key, with its inverse, and HMAC-SHA256. The key of the cipher
  is held as its two halves, the signing key and the encryption key.
\<close>

record fernet =
  signing_key :: string
  encryption_key :: string
  aes_encrypt_block :: "string \<Rightarrow> string \<Rightarrow> string"
  aes_decrypt_block :: "string \<Rightarrow> string \<Rightarrow> string"
  hmac_sha256 :: "string \<Rightarrow> string \<Rightarrow> string"

text \<open>
  \<open>base64.urlsafe_b64encode\<close>: three bytes become four characters of the alphabet
  \<open>A-Z a-z 0-9 - _\<close>, and a last group of one or two bytes is padded with \<open>=\<close>.
\<close>

definition b64_char :: "nat \<Rightarrow> char" where
  "b64_char i =
     (if i < 26 then char_of (65 + i)
      else if i < 52 then char_of (71 + i)
      else if i < 62 then char_of (i - 4)
      else if i = 62 then CHR ''-''
      else CHR ''_'')"

fun urlsafe_b64encode :: "string \<Rightarrow> string" where
  "urlsafe_b64encode [] = []"
| "urlsafe_b64encode [a] =
     (let x = (of_char a :: nat)
      in [b64_char (x div 4), b64_char (x mod 4 * 16), CHR ''='', CHR ''=''])"
| "urlsafe_b64encode [a, b] =
     (let x = (of_char a :: nat); y = (of_char b :: nat)
      in [b64_char (x div 4), b64_char (x mod 4 * 16 + y div 16), b64_char (y mod 16 * 4),
          CHR ''=''])"
| "urlsafe_b64encode (a # b # c # rest) =
     (let x = (of_char a :: nat); y = (of_char b :: nat); z = (of_char c :: nat)
      in [b64_char (x div 4), b64_char (x mod 4 * 16 + y div 16),
          b64_char (y mod 16 * 4 + z div 64), b64_char (z mod 64)] @ urlsafe_b64encode rest)"

text \<open>
  \<open>base64.urlsafe_b64decode\<close> on padded input whose characters are all of the alphabet:
  groups of four characters, padding allowed in the last group only. The library's
  decoder is more lenient on other input (it skips characters outside the alphabet); here
  such input gives \<open>None\<close>, which \<open>Fernet_decrypt\<close> reports as \<open>InvalidToken\<close>. The
  statements below apply the decoder only to what the encoder has produced.
\<close>

definition b64_index :: "char \<Rightarrow> nat option" where
  "b64_index c =
     (let n = (of_char c :: nat) in
      if 65 \<le> n \<and> n \<le> 90 then Some (n - 65)
      else if 97 \<le> n \<and> n \<le> 122 then Some (n - 71)
      else if 48 \<le> n \<and> n \<le> 57 then Some (n + 4)
      else if c = CHR ''-'' then Some 62
      else if c = CHR ''_'' then Some 63
      else None)"

definition decode_group :: "char \<Rightarrow> char \<Rightarrow> char \<Rightarrow> char \<Rightarrow> string option" where
  "decode_group c1 c2 c3 c4 =
     (case (b64_index c1, b64_index c2, b64_index c3, b64_index c4) of
        (Some i1, Some i2, Some i3, Some i4) \<Rightarrow>
          Some [char_of (i1 * 4 + i2 div 16), char_of (i2 mod 16 * 16 + i3 div 4),
                char_of (i3 mod 4 * 64 + i4)]
      | _ \<Rightarrow> None)"

definition decode_last :: "char \<Rightarrow> char \<Rightarrow> char \<Rightarrow> char \<Rightarrow> string option" where
  "decode_last c1 c2 c3 c4 =
     (if c4 = CHR ''='' then
        (if c3 = CHR ''='' then
           (case (b64_index c1, b64_index c2) of
              (Some i1, Some i2) \<Rightarrow> Some [char_of (i1 * 4 + i2 div 16)]
            | _ \<Rightarrow> None)
         else
           (case (b64_index c1, b64_index c2, b64_index c3) of
              (Some i1, Some i2, Some i3) \<Rightarrow>
                Some [char_of (i1 * 4 + i2 div 16), char_of (i2 mod 16 * 16 + i3 div 4)]
            | _ \<Rightarrow> None))
      else decode_group c1 c2 c3 c4)"

fun urlsafe_b64decode :: "string \<Rightarrow> string option" where
  "urlsafe_b64decode [] = Some []"
| "urlsafe_b64decode [c1, c2, c3, c4] = decode_last c1 c2 c3 c4"
| "urlsafe_b64decode (c1 # c2 # c3 # c4 # rest) =
     (case decode_group c1 c2 c3 c4 of
        None \<Rightarrow> None
      | Some bs \<Rightarrow>
          (case urlsafe_b64decode rest of
             None \<Rightarrow> None
           | Some ds \<Rightarrow> Some (bs @ ds)))"
| "urlsafe_b64decode _ = None"

text \<open>
  PKCS7 padding to blocks of 16 bytes (\<open>padding.PKCS7(128)\<close>): between 1 and 16 bytes are
  appended, each holding their number. Unpadding fails (\<open>ValueError\<close> in the library) on
  an empty or ragged input and on a pad byte that is 0, exceeds 16, or is not repeated
  as often as it says.
\<close>

definition pkcs7_pad :: "string \<Rightarrow> string" where
  "pkcs7_pad d = (let n = 16 - length d mod 16 in d @ replicate n (char_of n))"

definition pkcs7_unpad :: "string \<Rightarrow> string option" where
  "pkcs7_unpad d =
     (if d = [] \<or> length d mod 16 \<noteq> 0 then None
      else
        let n = (of_char (last d) :: nat) in
        if n = 0 \<or> 16 < n then None
        else if drop (length d - n) d = replicate n (last d) then Some (take (length d - n) d)
        else None)"

text \<open>
  CBC mode over 16-byte blocks: each plaintext block is xor-ed with the previous
  ciphertext block (the IV for the first) before the block function is applied.
\<close>

definition xor_char :: "char \<Rightarrow> char \<Rightarrow> char" where
  "xor_char a b = char_of (xor (of_char a :: nat) (of_char b))"

definition xor_bytes :: "string \<Rightarrow> string \<Rightarrow> string" where
  "xor_bytes a b = map2 xor_char a b"

function cbc_encrypt :: "(string \<Rightarrow> string) \<Rightarrow> string \<Rightarrow> string \<Rightarrow> string" where
  "cbc_encrypt E prev d =
     (if d = [] then []
      else let c = E (xor_bytes (take 16 d) prev) in c @ cbc_encrypt E c (drop 16 d))"
  by pat_completeness auto
termination
  by (relation "measure (\<lambda>(E, prev, d). length d)") auto

function cbc_decrypt :: "(string \<Rightarrow> string) \<Rightarrow> string \<Rightarrow> string \<Rightarrow> string" where
  "cbc_decrypt D prev d =
     (if d = [] then []
      else let c = take 16 d in xor_bytes (D c) prev @ cbc_decrypt D c (drop 16 d))"
  by pat_completeness auto
termination
  by (relation "measure (\<lambda>(D, prev, d). length d)") auto

declare cbc_encrypt.simps [simp del] cbc_decrypt.simps [simp del]

text \<open>
  \<open>current_time.to_bytes(length=8, byteorder="big")\<close>, for a clock below \<open>2 ^ 64\<close>.
\<close>

definition be64 :: "nat \<Rightarrow> string" where
  "be64 t = map (\<lambda>i. char_of (t div 256 ^ (7 - i))) [0..<8]"

text \<open>
  \<^verbatim>\<open>
  def _encrypt_from_parts(self, data, current_time, iv):
      padder = padding.PKCS7(algorithms.AES.block_size).padder()
      padded_data = padder.update(data) + padder.finalize()
      encryptor = Cipher(algorithms.AES(self._encryption_key), modes.CBC(iv)).encryptor()
      ciphertext = encryptor.update(padded_data) + encryptor.finalize()
      basic_parts = (version byte 0x80) + current_time.to_bytes(8, "big") + iv + ciphertext
      h = HMAC(self._signing_key, hashes.SHA256())
      h.update(basic_parts)
      hmac = h.finalize()
      return base64.urlsafe_b64encode(basic_parts + hmac)
  \<close>
  \<open>encrypt\<close> calls it with \<open>int(time.time())\<close> and \<open>os.urandom(16)\<close>, which are the
  arguments \<open>current_time\<close> and \<open>iv\<close> here.
\<close>

definition Fernet_encrypt :: "fernet \<Rightarrow> nat \<Rightarrow> string \<Rightarrow> string \<Rightarrow> string" where
  "Fernet_encrypt F current_time iv data =
     (let padded_data = pkcs7_pad data;
          ciphertext = cbc_encrypt (aes_encrypt_block F (encryption_key F)) iv padded_data;
          basic_parts = CHR 0x80 # be64 current_time @ iv @ ciphertext;
          hmac = hmac_sha256 F (signing_key F) basic_parts
      in urlsafe_b64encode (basic_parts @ hmac))"

text \<open>
  \<open>decrypt(token)\<close> without \<open>ttl\<close>, as the service calls it: decode, check the version
  byte and the length, verify the signature over all but the last 32 bytes, then
  \<open>iv = data[9:25]\<close>, \<open>ciphertext = data[25:-32]\<close>, decrypt and unpad. Every failure is
  \<open>InvalidToken\<close>, here \<open>None\<close>; the timestamp is not read.
\<close>

definition Fernet_decrypt :: "fernet \<Rightarrow> string \<Rightarrow> string option" where
  "Fernet_decrypt F token =
     (case urlsafe_b64decode token of
        None \<Rightarrow> None
      | Some data \<Rightarrow>
          if data = [] \<or> hd data \<noteq> CHR 0x80 then None
          else if length data < 9 then None
          else if hmac_sha256 F (signing_key F) (take (length data - 32) data)
                  \<noteq> drop (length data - 32) data then None
          else
            let iv = take 16 (drop 9 data);
                ciphertext = take (length data - 32 - 25) (drop 25 data)
            in if length iv \<noteq> 16 \<or> length ciphertext mod 16 \<noteq> 0 then None
               else pkcs7_unpad
                      (cbc_decrypt (aes_decrypt_block F (encryption_key F)) iv ciphertext))"

section \<open>The audit emitter\<close>

text \<open>
  \<^verbatim>\<open>
  def log_audit(user_id, action, secret_id, user_email):
      try:
          import requests
          requests.post("http://audit-service:8002/api/audit", json={...}, timeout=2)
      except:
          pass
  \<close>
  Both branches return normally; the call and its outcome are recorded in
  \<open>audit_posts\<close>.
\<close>

definition log_audit ::
  "env \<Rightarrow> int \<Rightarrow> string \<Rightarrow> int \<Rightarrow> string \<Rightarrow> system \<Rightarrow> (error + unit) \<times> system" where
  "log_audit e uid action sid uemail st =
     (let ev = \<lparr>ev_user_id = uid, ev_user_email = uemail, ev_action = action,
                ev_secret_id = sid, ev_timestamp = datetime_now e\<rparr>;
          outcome = requests_post e ev;
          st' = st\<lparr>audit_posts := audit_posts st @ [(ev, outcome)]\<rparr>
      in case outcome of
           Inl exn \<Rightarrow> (Inr (), st')
         | Inr response \<Rightarrow> (Inr (), st'))"

section \<open>The secret store\<close>

record secret_response =
  r_id :: int
  r_name :: string
  r_type :: string
  r_description :: "string option"
  r_tags :: pyval
  r_created_at :: nat
  r_updated_at :: nat
  r_version :: int
  r_owner_email :: string

text \<open>
  \<open>create_secret\<close>: the role test, the encryption, the \<open>INSERT ... RETURNING\<close> with
  \<open>version\<close> 1, the commit, the audit call, and the returned dictionary.
\<close>

definition create_secret ::
  "env \<Rightarrow> SecretCreate \<Rightarrow> identity \<Rightarrow> system \<Rightarrow> (error + secret_response) \<times> system" where
  "create_secret e secret user st =
     (if role user = ''user'' then
        (Inl (HTTPException 403 ''Users cannot create secrets. Contact your administrator.''),
         st)
      else
        (case encrypt_value e (c_value secret) of
           Inl x \<Rightarrow> (Inl x, st)
         | Inr encrypted \<Rightarrow>
             (let d = db st;
                  result = \<lparr>row_id = secrets_id_seq d, name = c_name secret,
                            stype = c_type secret, encrypted_value = encrypted,
                            description = c_description secret,
                            tags = json_dumps (c_tags secret), owner_id = user_id user,
                            version = 1, created_at = db_now e, updated_at = db_now e,
                            deleted_at = None\<rparr>;
                  st1 = st\<lparr>db := d\<lparr>secrets := secrets d @ [result],
                                      secrets_id_seq := secrets_id_seq d + 1\<rparr>\<rparr>
              in case log_audit e (user_id user) ''CREATE'' (row_id result) (email user) st1 of
                   (Inl x, st2) \<Rightarrow> (Inl x, st2)
                 | (Inr u, st2) \<Rightarrow>
                     (case parse_tags (tags_column e (tags result)) of
                        Inl x \<Rightarrow> (Inl x, st2)
                      | Inr t \<Rightarrow>
                          (Inr \<lparr>r_id = row_id result, r_name = name result,
                                r_type = stype result, r_description = description result,
                                r_tags = t, r_created_at = created_at result,
                                r_updated_at = updated_at result,
                                r_version = version result,
                                r_owner_email = email user\<rparr>,
                           st2)))))"

text \<open>
  \<open>get_secret\<close>. Both queries join each secret with the \<open>users\<close> row of its owner;
  the one for a caller who is not \<open>admin\<close> also asks for the caller's \<open>owner_id\<close>.
  \<open>fetchone\<close> is the first row of the result.
\<close>

definition join_owner :: "database \<Rightarrow> (secret_row \<times> user_row) list" where
  "join_owner d = [(s, u). s \<leftarrow> secrets d, u \<leftarrow> users d, owner_id s = user_row_id u]"

definition masked_value :: string where
  "masked_value = concat (replicate 12 [CHR 0xE2, CHR 0x80, CHR 0xA2])"

record secret_detail =
  g_id :: int
  g_name :: string
  g_type :: string
  g_description :: "string option"
  g_tags :: pyval
  g_owner_id :: int
  g_version :: int
  g_created_at :: nat
  g_updated_at :: nat
  g_deleted_at :: "nat option"
  g_owner_email :: string
  g_value :: string

definition get_secret ::
  "env \<Rightarrow> int \<Rightarrow> bool \<Rightarrow> identity \<Rightarrow> system \<Rightarrow> (error + secret_detail) \<times> system" where
  "get_secret e secret_id show_value user st =
     (let rows =
            (if role user = ''admin'' then
               filter (\<lambda>(s, u). row_id s = secret_id \<and> deleted_at s = None)
                 (join_owner (db st))
             else
               filter (\<lambda>(s, u). row_id s = secret_id \<and> owner_id s = user_id user \<and>
                                 deleted_at s = None)
                 (join_owner (db st)))
      in case rows of
           [] \<Rightarrow> (Inl (HTTPException 404 ''Secret not found''), st)
         | (result, owner) # _ \<Rightarrow>
             (case log_audit e (user_id user) ''VIEW'' secret_id (email user) st of
                (Inl x, st1) \<Rightarrow> (Inl x, st1)
              | (Inr u, st1) \<Rightarrow>
                  (case parse_tags (tags_column e (tags result)) of
                     Inl x \<Rightarrow> (Inl x, st1)
                   | Inr t \<Rightarrow>
                       (case (if show_value then decrypt_value e (encrypted_value result)
                              else Inr masked_value) of
                          Inl x \<Rightarrow> (Inl x, st1)
                        | Inr v \<Rightarrow>
                            (Inr \<lparr>g_id = row_id result, g_name = name result,
                                  g_type = stype result,
                                  g_description = description result, g_tags = t,
                                  g_owner_id = owner_id result,
                                  g_version = version result,
                                  g_created_at = created_at result,
                                  g_updated_at = updated_at result,
                                  g_deleted_at = deleted_at result,
                                  g_owner_email = user_row_email owner, g_value = v\<rparr>,
                             st1)))))"

text \<open>
  \<open>update_secret\<close>. The \<open>SET\<close> list is built as the source builds \<open>updates\<close> and
  \<open>params\<close>; every right-hand side reads the row as it was. The source's test
  \<open>if secret_update.value:\<close> is Python's truth of an optional string: present and not
  empty. Until \<open>db.commit()\<close> nothing is kept: a call that raises before it leaves the
  store as it was.
\<close>

datatype assignment =
    SetEncryptedValue string
  | IncrementVersion
  | SetDescription string
  | SetTags string
  | SetUpdatedAtNow

fun assign :: "nat \<Rightarrow> secret_row \<Rightarrow> secret_row \<Rightarrow> assignment \<Rightarrow> secret_row" where
  "assign now old r (SetEncryptedValue c) = r\<lparr>encrypted_value := c\<rparr>"
| "assign now old r IncrementVersion = r\<lparr>version := version old + 1\<rparr>"
| "assign now old r (SetDescription d) = r\<lparr>description := Some d\<rparr>"
| "assign now old r (SetTags t) = r\<lparr>tags := t\<rparr>"
| "assign now old r SetUpdatedAtNow = r\<lparr>updated_at := now\<rparr>"

definition apply_updates :: "nat \<Rightarrow> assignment list \<Rightarrow> secret_row \<Rightarrow> secret_row" where
  "apply_updates now updates old = foldl (assign now old) old updates"

definition value_updates :: "env \<Rightarrow> SecretUpdate \<Rightarrow> error + assignment list" where
  "value_updates e secret_update =
     (case u_value secret_update of
        None \<Rightarrow> Inr []
      | Some v \<Rightarrow>
          if v = [] then Inr []
          else
            (case encrypt_value e v of
               Inl x \<Rightarrow> Inl x
             | Inr c \<Rightarrow> Inr [SetEncryptedValue c, IncrementVersion]))"

definition update_secret ::
  "env \<Rightarrow> int \<Rightarrow> SecretUpdate \<Rightarrow> identity \<Rightarrow> system \<Rightarrow> (error + string \<times> int) \<times> system" where
  "update_secret e secret_id secret_update user st =
     (case find (\<lambda>r. row_id r = secret_id \<and> owner_id r = user_id user \<and> deleted_at r = None)
             (secrets (db st)) of
        None \<Rightarrow> (Inl (HTTPException 404 ''Secret not found''), st)
      | Some existing \<Rightarrow>
          (let d1 = (db st)\<lparr>secret_versions := secret_versions (db st) @
                       [\<lparr>sv_secret_id = secret_id, sv_version = version existing,
                         sv_encrypted_value = encrypted_value existing,
                         sv_updated_by = user_id user, sv_created_at = db_now e\<rparr>]\<rparr>
           in case value_updates e secret_update of
                Inl x \<Rightarrow> (Inl x, st)
              | Inr value_set \<Rightarrow>
                  (let updates =
                         value_set @
                         (case u_description secret_update of
                            None \<Rightarrow> [] | Some dsc \<Rightarrow> [SetDescription dsc]) @
                         (case u_tags secret_update of
                            None \<Rightarrow> [] | Some ts \<Rightarrow> [SetTags (json_dumps (Some ts))]) @
                         [SetUpdatedAtNow];
                       hit = (\<lambda>r. row_id r = secret_id \<and> owner_id r = user_id user);
                       returning = map (apply_updates (db_now e) updates)
                                     (filter hit (secrets d1));
                       d2 = d1\<lparr>secrets :=
                                 map (\<lambda>r. if hit r then apply_updates (db_now e) updates r
                                           else r) (secrets d1)\<rparr>;
                       st1 = st\<lparr>db := d2\<rparr>
                   in case log_audit e (user_id user) ''UPDATE'' secret_id (email user) st1 of
                        (Inl x, st2) \<Rightarrow> (Inl x, st2)
                      | (Inr u, st2) \<Rightarrow>
                          (case returning of
                             [] \<Rightarrow> (Inl TypeError, st2)
                           | result # _ \<Rightarrow>
                               (Inr (''Secret updated successfully'', version result),
                                st2)))))"

text \<open>
  \<open>delete_secret\<close>: one \<open>UPDATE\<close> that stamps \<open>deleted_at\<close> on the caller's live rows
  with that id; \<open>rowcount\<close> is the number of rows it changed.
\<close>

definition delete_secret ::
  "env \<Rightarrow> int \<Rightarrow> identity \<Rightarrow> system \<Rightarrow> (error + string) \<times> system" where
  "delete_secret e secret_id user st =
     (let hit = (\<lambda>r. row_id r = secret_id \<and> owner_id r = user_id user \<and> deleted_at r = None);
          rowcount = length (filter hit (secrets (db st)));
          d1 = (db st)\<lparr>secrets :=
                  map (\<lambda>r. if hit r then r\<lparr>deleted_at := Some (db_now e)\<rparr> else r)
                    (secrets (db st))\<rparr>
      in if rowcount = 0 then (Inl (HTTPException 404 ''Secret not found''), st)
         else
           (case log_audit e (user_id user) ''DELETE'' secret_id (email user) (st\<lparr>db := d1\<rparr>) of
              (Inl x, st2) \<Rightarrow> (Inl x, st2)
            | (Inr u, st2) \<Rightarrow> (Inr ''Secret deleted successfully'', st2)))"

section \<open>The rotation engine\<close>

text \<open>
  \<^verbatim>\<open>
  alphabet = string.ascii_letters + string.digits + "!@#$%^&*"
  new_password = ''.join(secrets.choice(alphabet) for _ in range(20))
  \<close>
  \<open>secrets.choice\<close> returns the element at an index below the length of its argument,
  drawn from the system's random source: the \<open>k\<close>-th draw is \<open>randbelow e k n\<close>, reduced
  below \<open>n\<close>. The alphabet is not empty.
\<close>

definition alphabet :: string where
  "alphabet = ''abcdefghijklmnopqrstuvwxyzABCDEFGHIJKLMNOPQRSTUVWXYZ'' @ ''0123456789'' @
              ''!@#$%^&*''"

definition secrets_choice :: "env \<Rightarrow> nat \<Rightarrow> string \<Rightarrow> char" where
  "secrets_choice e k seq = seq ! (randbelow e k (length seq) mod length seq)"

definition new_password :: "env \<Rightarrow> string" where
  "new_password e = map (\<lambda>k. secrets_choice e k alphabet) [0..<20]"

definition rotate_secret ::
  "env \<Rightarrow> int \<Rightarrow> identity \<Rightarrow> system \<Rightarrow> (error + string \<times> string) \<times> system" where
  "rotate_secret e secret_id user st =
     (let secret_update = \<lparr>u_value = Some (new_password e), u_description = None,
                           u_tags = None\<rparr>
      in case update_secret e secret_id secret_update user st of
           (Inl x, st1) \<Rightarrow> (Inl x, st1)
         | (Inr u, st1) \<Rightarrow>
             (case log_audit e (user_id user) ''ROTATE'' secret_id (email user) st1 of
                (Inl x, st2) \<Rightarrow> (Inl x, st2)
              | (Inr u', st2) \<Rightarrow>
                  (Inr (''Secret rotated successfully'', new_password e), st2)))"

section \<open>Notions used in the statements\<close>

text \<open>
  \<open>lookup_secret\<close> is the row with a given id. \<open>primary_key\<close> and \<open>owners_registered\<close>
  are the two constraints of the absent table declarations that the statements rely
  on: \<open>secrets.id\<close> is a key, and every \<open>owner_id\<close> is the id of a \<open>users\<close> row.
\<close>

definition lookup_secret :: "database \<Rightarrow> int \<Rightarrow> secret_row option" where
  "lookup_secret d sid = find (\<lambda>r. row_id r = sid) (secrets d)"

definition primary_key :: "database \<Rightarrow> bool" where
  "primary_key d = distinct (map row_id (secrets d))"

definition owners_registered :: "database \<Rightarrow> bool" where
  "owners_registered d =
     list_all (\<lambda>s. list_ex (\<lambda>u. user_row_id u = owner_id s) (users d)) (secrets d)"

text \<open>
  \<open>missing_for\<close>: for this caller there is no such secret to change (none with the
  id, or soft-deleted, or another owner's). \<open>hidden_from\<close> is the same for reading,
  where the role \<open>admin\<close> lifts the condition on the owner.
\<close>

definition missing_for :: "identity \<Rightarrow> secret_row option \<Rightarrow> bool" where
  "missing_for user found =
     (case found of
        None \<Rightarrow> True
      | Some r \<Rightarrow> deleted_at r \<noteq> None \<or> owner_id r \<noteq> user_id user)"

definition hidden_from :: "identity \<Rightarrow> secret_row option \<Rightarrow> bool" where
  "hidden_from user found =
     (case found of
        None \<Rightarrow> True
      | Some r \<Rightarrow>
          deleted_at r \<noteq> None \<or> (role user \<noteq> ''admin'' \<and> owner_id r \<noteq> user_id user))"

text \<open>The rows the query of \<open>get_secret\<close> returns.\<close>

definition visible_rows :: "identity \<Rightarrow> int \<Rightarrow> database \<Rightarrow> (secret_row \<times> user_row) list" where
  "visible_rows user sid d =
     (if role user = ''admin'' then
        filter (\<lambda>(s, u). row_id s = sid \<and> deleted_at s = None) (join_owner d)
      else
        filter (\<lambda>(s, u). row_id s = sid \<and> owner_id s = user_id user \<and> deleted_at s = None)
          (join_owner d))"

text \<open>What \<open>delete_secret\<close>'s statement does to one row.\<close>

definition tombstone :: "env \<Rightarrow> int \<Rightarrow> identity \<Rightarrow> secret_row \<Rightarrow> secret_row" where
  "tombstone e sid user r =
     (if row_id r = sid \<and> owner_id r = user_id user \<and> deleted_at r = None
      then r\<lparr>deleted_at := Some (db_now e)\<rparr> else r)"

text \<open>
  The parts of a successful \<open>update_secret\<close>: the row it archives, the \<open>SET\<close> list it
  builds from the request, the record of its audit call, and the store after its two
  statements.
\<close>

definition archived :: "env \<Rightarrow> int \<Rightarrow> identity \<Rightarrow> secret_row \<Rightarrow> secret_version_row" where
  "archived e sid user r =
     \<lparr>sv_secret_id = sid, sv_version = version r, sv_encrypted_value = encrypted_value r,
      sv_updated_by = user_id user, sv_created_at = db_now e\<rparr>"

definition set_list :: "SecretUpdate \<Rightarrow> assignment list \<Rightarrow> assignment list" where
  "set_list upd value_set =
     value_set @
     (case u_description upd of None \<Rightarrow> [] | Some dsc \<Rightarrow> [SetDescription dsc]) @
     (case u_tags upd of None \<Rightarrow> [] | Some ts \<Rightarrow> [SetTags (json_dumps (Some ts))]) @
     [SetUpdatedAtNow]"

definition audit_entry ::
  "env \<Rightarrow> identity \<Rightarrow> string \<Rightarrow> int \<Rightarrow> audit_event \<times> (error + nat)" where
  "audit_entry e user action sid =
     (let ev = \<lparr>ev_user_id = user_id user, ev_user_email = email user, ev_action = action,
                ev_secret_id = sid, ev_timestamp = datetime_now e\<rparr>
      in (ev, requests_post e ev))"

definition updated_db ::
  "env \<Rightarrow> int \<Rightarrow> identity \<Rightarrow> secret_row \<Rightarrow> assignment list \<Rightarrow> database \<Rightarrow> database" where
  "updated_db e sid user existing updates d =
     d\<lparr>secret_versions := secret_versions d @ [archived e sid user existing],
       secrets := map (\<lambda>r. if row_id r = sid \<and> owner_id r = user_id user
                            then apply_updates (db_now e) updates r else r) (secrets d)\<rparr>"

text \<open>
  \<open>encryptable\<close>: the value is a well-formed string and the cipher's token for it is
  text, so that \<open>encrypt_value\<close> returns. \<open>update_encryptable\<close> asks it of the value an
  update carries, if it carries one.
\<close>

definition encryptable :: "env \<Rightarrow> string \<Rightarrow> bool" where
  "encryptable e v = (utf8_valid v \<and> utf8_valid (fernet_encrypt e v))"

definition update_encryptable :: "env \<Rightarrow> SecretUpdate \<Rightarrow> bool" where
  "update_encryptable e upd =
     (case u_value upd of None \<Rightarrow> True | Some v \<Rightarrow> if v = [] then True else encryptable e v)"

text \<open>
  What the round trip needs of the primitives: under every key the block function maps
  16-byte blocks to 16-byte blocks and the inverse function undoes it, and the digest of
  HMAC-SHA256 has 32 bytes.
\<close>

definition block_cipher :: "fernet \<Rightarrow> bool" where
  "block_cipher F \<longleftrightarrow>
     (\<forall>k b. length b = 16 \<longrightarrow>
        length (aes_encrypt_block F k b) = 16 \<and>
        aes_decrypt_block F k (aes_encrypt_block F k b) = b)"

definition digest_size :: "fernet \<Rightarrow> bool" where
  "digest_size F \<longleftrightarrow> (\<forall>k m. length (hmac_sha256 F k m) = 32)"

text \<open>
  A run of updates of one secret by one caller, each with the environment of its own
  request; the run stops at the first call that raises. \<open>value_changing\<close> is the
  source's test \<open>if secret_update.value:\<close>. \<open>versions_of\<close> are the archived rows of a
  secret, and \<open>archived_versions v us\<close> the version numbers a run of \<open>us\<close> archives
  from version \<open>v\<close>: each update archives the version it finds.
\<close>

definition value_changing :: "SecretUpdate \<Rightarrow> bool" where
  "value_changing upd = (case u_value upd of None \<Rightarrow> False | Some v \<Rightarrow> v \<noteq> [])"

definition versions_of :: "database \<Rightarrow> int \<Rightarrow> secret_version_row list" where
  "versions_of d sid = filter (\<lambda>v. sv_secret_id v = sid) (secret_versions d)"

fun run_updates ::
  "(env \<times> SecretUpdate) list \<Rightarrow> int \<Rightarrow> identity \<Rightarrow> system \<Rightarrow> error + system" where
  "run_updates [] sid user st = Inr st"
| "run_updates ((e, upd) # rest) sid user st =
     (case update_secret e sid upd user st of
        (Inl x, st1) \<Rightarrow> Inl x
      | (Inr u, st1) \<Rightarrow> run_updates rest sid user st1)"

fun archived_versions :: "int \<Rightarrow> SecretUpdate list \<Rightarrow> int list" where
  "archived_versions v [] = []"
| "archived_versions v (upd # rest) =
     v # archived_versions (if value_changing upd then v + 1 else v) rest"

section \<open>The errors of the specification, and a worked example\<close>

text \<open>
  The specification's \<open>ForbiddenError\<close> and \<open>NotFoundError\<close> are the two
  \<open>HTTPException\<close>s the service raises.
\<close>

definition ForbiddenError :: error where
  "ForbiddenError =
     HTTPException 403 ''Users cannot create secrets. Contact your administrator.''"

definition NotFoundError :: error where
  "NotFoundError = HTTPException 404 ''Secret not found''"

text \<open>
  A sample environment for the worked examples. The cipher is a stand-in that keeps
  the shape of a Fernet token (text that starts with \<open>gAAAAA\<close>) and nothing of its
  secrecy; the audit service answers 200; the driver returns the \<open>tags\<close> column as
  text.
\<close>

definition example_env :: env where
  "example_env =
     \<lparr>fernet_encrypt = (\<lambda>m. ''gAAAAA'' @ m),
      fernet_decrypt = (\<lambda>t. if take 6 t = ''gAAAAA'' then Some (drop 6 t) else None),
      db_now = 1000,
      datetime_now = ''2024-05-01T12:00:00'',
      requests_post = (\<lambda>ev. Inr 200),
      randbelow = (\<lambda>k n. 7 * k + 3),
      tags_column = PStr\<rparr>"

text \<open>
  A sample store: a live secret and a soft-deleted one, both owned by the developer
  (user 2), and three callers, one of each role.
\<close>

definition example_db :: database where
  \<open>example_db =
     \<lparr>secrets =
        [\<lparr>row_id = 1, name = ''db-pass'', stype = ''password'',
          encrypted_value = ''gAAAAAp@ss1'', description = None, tags = ''["db"]'',
          owner_id = 2, version = 1, created_at = 900, updated_at = 900,
          deleted_at = None\<rparr>,
         \<lparr>row_id = 2, name = ''old-key'', stype = ''api_key'',
          encrypted_value = ''gAAAAAk3y'', description = Some ''retired'', tags = ''[]'',
          owner_id = 2, version = 1, created_at = 800, updated_at = 800,
          deleted_at = Some 950\<rparr>],
      secret_versions = [],
      users =
        [\<lparr>user_row_id = 1, user_row_email = ''admin@example.com''\<rparr>,
         \<lparr>user_row_id = 2, user_row_email = ''dev@example.com''\<rparr>,
         \<lparr>user_row_id = 3, user_row_email = ''guest@example.com''\<rparr>],
      secrets_id_seq = 3\<rparr>\<close>

definition example_system :: system where
  "example_system = \<lparr>db = example_db, audit_posts = []\<rparr>"

definition admin_caller :: identity where
  "admin_caller = \<lparr>user_id = 1, email = ''admin@example.com'', role = ''admin''\<rparr>"

definition developer_caller :: identity where
  "developer_caller = \<lparr>user_id = 2, email = ''dev@example.com'', role = ''developer''\<rparr>"

definition guest_caller :: identity where
  "guest_caller = \<lparr>user_id = 3, email = ''guest@example.com'', role = ''user''\<rparr>"

definition example_create :: SecretCreate where
  "example_create =
     \<lparr>c_name = ''api'', c_type = ''api_key'', c_value = ''s3cr3t'', c_description = None,
      c_tags = Some [''prod'']\<rparr>"

definition example_update :: SecretUpdate where
  "example_update = \<lparr>u_value = Some ''p@ss2'', u_description = None, u_tags = None\<rparr>"

text \<open>The owner of the sample secret, with the read-only role.\<close>

definition demoted_owner :: identity where
  "demoted_owner = \<lparr>user_id = 2, email = ''dev@example.com'', role = ''user''\<rparr>"

text \<open>A metadata-only update, and a second value-changing one.\<close>

definition example_note :: SecretUpdate where
  "example_note = \<lparr>u_value = None, u_description = Some ''rotate monthly'', u_tags = None\<rparr>"

definition example_update2 :: SecretUpdate where
  "example_update2 = \<lparr>u_value = Some ''p@ss3'', u_description = None, u_tags = Some [''db'']\<rparr>"

text \<open>
  A cipher for the worked example: keys of 16 bytes, and stand-ins for the two primitives
  that can be evaluated (reversal of the block, and a 32-byte digest cut from key and
  message). The environment \<open>example_cipher_env\<close> encrypts with it at a fixed time and
  IV.
\<close>

definition example_fernet :: fernet where
  "example_fernet =
     \<lparr>signing_key = ''0123456789abcdef'',
      encryption_key = ''fedcba9876543210'',
      aes_encrypt_block = (\<lambda>k b. rev b),
      aes_decrypt_block = (\<lambda>k c. rev c),
      hmac_sha256 = (\<lambda>k m. take 32 (k @ m @ replicate 32 (CHR ''#'')))\<rparr>"

definition example_cipher_env :: env where
  "example_cipher_env =
     example_env
       \<lparr>fernet_encrypt := Fernet_encrypt example_fernet 1714564800 ''0000111122223333'',
        fernet_decrypt := Fernet_decrypt example_fernet\<rparr>"

section \<open>Shared facts\<close>

lemma parse_tags_returns: "\<exists>v. parse_tags t = Inr v"
  by (cases t) (auto split: sum.splits)

lemma log_audit_returns:
  "\<exists>st'. log_audit e uid action sid uemail st = (Inr (), st') \<and> db st' = db st"
  by (auto simp: log_audit_def Let_def split: sum.splits)

lemma encrypt_value_error:
  "encrypt_value e v = Inl x \<Longrightarrow> x = UnicodeEncodeError \<or> x = UnicodeDecodeError"
  by (auto simp: encrypt_value_def str_encode_def bytes_decode_def split: if_splits)

lemma encrypt_value_ok:
  "utf8_valid v \<Longrightarrow> utf8_valid (fernet_encrypt e v) \<Longrightarrow>
   encrypt_value e v = Inr (fernet_encrypt e v)"
  by (simp add: encrypt_value_def str_encode_def bytes_decode_def)

lemma find_Some_set: "find P xs = Some x \<Longrightarrow> x \<in> set xs \<and> P x"
  by (induction xs) (auto split: if_splits)

lemma find_None_set: "find P xs = None \<longleftrightarrow> (\<forall>x \<in> set xs. \<not> P x)"
  by (induction xs) auto

lemma lookup_unique:
  assumes "primary_key d"
  shows "(\<exists>s \<in> set (secrets d). row_id s = sid \<and> R s) \<longleftrightarrow>
         (\<exists>r. lookup_secret d sid = Some r \<and> R r)"
proof
  assume "\<exists>s \<in> set (secrets d). row_id s = sid \<and> R s"
  then obtain s where s: "s \<in> set (secrets d)" "row_id s = sid" "R s" by blast
  then have "find (\<lambda>r. row_id r = sid) (secrets d) \<noteq> None"
    by (auto simp: find_None_set)
  then obtain r where r: "find (\<lambda>r. row_id r = sid) (secrets d) = Some r" by blast
  from find_Some_set [OF r] have "r \<in> set (secrets d)" "row_id r = sid" by auto
  with s assms have "r = s"
    by (auto simp: primary_key_def distinct_map inj_on_def)
  with r s show "\<exists>r. lookup_secret d sid = Some r \<and> R r"
    by (simp add: lookup_secret_def)
next
  assume "\<exists>r. lookup_secret d sid = Some r \<and> R r"
  then show "\<exists>s \<in> set (secrets d). row_id s = sid \<and> R s"
    by (auto simp: lookup_secret_def dest: find_Some_set)
qed

lemma find_owned_live:
  assumes "primary_key d"
  shows "find (\<lambda>r. row_id r = sid \<and> owner_id r = uid \<and> deleted_at r = None) (secrets d) =
         (case lookup_secret d sid of
            None \<Rightarrow> None
          | Some r \<Rightarrow> if owner_id r = uid \<and> deleted_at r = None then Some r else None)"
proof (cases "find (\<lambda>r. row_id r = sid \<and> owner_id r = uid \<and> deleted_at r = None) (secrets d)")
  case None
  then have "\<not> (\<exists>s \<in> set (secrets d). row_id s = sid \<and> (owner_id s = uid \<and> deleted_at s = None))"
    by (auto simp: find_None_set)
  with lookup_unique [OF assms, of sid "\<lambda>s. owner_id s = uid \<and> deleted_at s = None"]
  have "\<not> (\<exists>r. lookup_secret d sid = Some r \<and> owner_id r = uid \<and> deleted_at r = None)"
    by simp
  with None show ?thesis by (auto split: option.splits)
next
  case (Some x)
  from find_Some_set [OF Some]
  have x: "x \<in> set (secrets d)" "row_id x = sid" "owner_id x = uid" "deleted_at x = None"
    by auto
  then have "\<exists>s \<in> set (secrets d). row_id s = sid \<and> s = x" by blast
  with lookup_unique [OF assms, of sid "\<lambda>s. s = x"]
  have "lookup_secret d sid = Some x" by simp
  with Some x show ?thesis by simp
qed

lemma value_updates_error:
  "value_updates e u = Inl x \<Longrightarrow> x = UnicodeEncodeError \<or> x = UnicodeDecodeError"
  by (auto simp: value_updates_def split: option.splits if_splits sum.splits
           dest: encrypt_value_error)

lemma update_secret_not_found:
  "find (\<lambda>r. row_id r = sid \<and> owner_id r = user_id user \<and> deleted_at r = None)
     (secrets (db st)) = None \<Longrightarrow>
   update_secret e sid upd user st = (Inl NotFoundError, st)"
  by (simp add: update_secret_def NotFoundError_def)

lemma update_secret_found:
  assumes "find (\<lambda>r. row_id r = sid \<and> owner_id r = user_id user \<and> deleted_at r = None)
     (secrets (db st)) = Some ex"
  shows "fst (update_secret e sid upd user st) \<noteq> Inl NotFoundError"
proof (cases "value_updates e upd")
  case (Inl x)
  with assms value_updates_error [OF Inl] show ?thesis
    by (auto simp: update_secret_def NotFoundError_def)
next
  case (Inr vs)
  with assms show ?thesis
    by (auto simp: update_secret_def NotFoundError_def log_audit_def Let_def
             split: sum.splits list.splits prod.splits)
qed

lemma example_primary_key: "primary_key (db example_system)"
  by (simp add: primary_key_def example_system_def example_db_def)

lemma example_lookup:
  "lookup_secret (db example_system) 1 = Some (hd (secrets example_db))"
  "lookup_secret (db example_system) 2 = Some (secrets example_db ! 1)"
  "lookup_secret (db example_system) 99 = None"
  by (simp_all add: lookup_secret_def example_system_def example_db_def)

lemma decrypt_value_error:
  "decrypt_value e c = Inl x \<Longrightarrow>
   x = UnicodeEncodeError \<or> x = InvalidToken \<or> x = UnicodeDecodeError"
  by (auto simp: decrypt_value_def str_encode_def bytes_decode_def
           split: if_splits option.splits)

lemma set_join_owner:
  "set (join_owner d) =
     {(s, u). s \<in> set (secrets d) \<and> u \<in> set (users d) \<and> owner_id s = user_row_id u}"
  by (auto simp: join_owner_def)

lemma joined_rows_empty:
  assumes "owners_registered d"
  shows "filter (\<lambda>(s, u). Q s) (join_owner d) = [] \<longleftrightarrow> (\<forall>s \<in> set (secrets d). \<not> Q s)"
proof -
  have "filter (\<lambda>(s, u). Q s) (join_owner d) = [] \<longleftrightarrow>
        (\<forall>p \<in> set (join_owner d). \<not> (case p of (s, u) \<Rightarrow> Q s))"
    by (simp add: filter_empty_conv)
  also have "\<dots> \<longleftrightarrow> (\<forall>s \<in> set (secrets d). \<not> Q s)"
    using assms
    by (fastforce simp: set_join_owner owners_registered_def list_all_iff list_ex_iff)
  finally show ?thesis .
qed

lemma visible_rows_empty:
  assumes "primary_key d" and "owners_registered d"
  shows "visible_rows user sid d = [] \<longleftrightarrow> hidden_from user (lookup_secret d sid)"
proof (cases "role user = ''admin''")
  case True
  have "visible_rows user sid d = [] \<longleftrightarrow>
        \<not> (\<exists>s \<in> set (secrets d). row_id s = sid \<and> deleted_at s = None)"
    using True joined_rows_empty [OF assms(2), of "\<lambda>s. row_id s = sid \<and> deleted_at s = None"]
    by (simp add: visible_rows_def)
  also have "\<dots> \<longleftrightarrow> \<not> (\<exists>r. lookup_secret d sid = Some r \<and> deleted_at r = None)"
    using lookup_unique [OF assms(1), of sid "\<lambda>s. deleted_at s = None"] by simp
  also have "\<dots> \<longleftrightarrow> hidden_from user (lookup_secret d sid)"
    using True by (auto simp: hidden_from_def split: option.splits)
  finally show ?thesis .
next
  case False
  have "visible_rows user sid d = [] \<longleftrightarrow>
        \<not> (\<exists>s \<in> set (secrets d).
              row_id s = sid \<and> (owner_id s = user_id user \<and> deleted_at s = None))"
    using False
      joined_rows_empty [OF assms(2),
        of "\<lambda>s. row_id s = sid \<and> owner_id s = user_id user \<and> deleted_at s = None"]
    by (simp add: visible_rows_def)
  also have "\<dots> \<longleftrightarrow>
        \<not> (\<exists>r. lookup_secret d sid = Some r \<and> owner_id r = user_id user \<and> deleted_at r = None)"
    using lookup_unique [OF assms(1), of sid "\<lambda>s. owner_id s = user_id user \<and> deleted_at s = None"]
    by simp
  also have "\<dots> \<longleftrightarrow> hidden_from user (lookup_secret d sid)"
    using False by (auto simp: hidden_from_def split: option.splits)
  finally show ?thesis .
qed

lemma get_secret_none:
  "visible_rows user sid (db st) = [] \<Longrightarrow>
   get_secret e sid show_value user st = (Inl NotFoundError, st)"
  by (simp add: get_secret_def visible_rows_def NotFoundError_def split: if_splits)

lemma get_secret_some:
  assumes "visible_rows user sid (db st) \<noteq> []"
  shows "fst (get_secret e sid show_value user st) \<noteq> Inl NotFoundError"
proof -
  from assms obtain result owner rest where
    rows: "visible_rows user sid (db st) = (result, owner) # rest"
    by (cases "visible_rows user sid (db st)") auto
  obtain st1 where la: "log_audit e (user_id user) ''VIEW'' sid (email user) st = (Inr (), st1)"
    using log_audit_returns by blast
  obtain t where pt: "parse_tags (tags_column e (tags result)) = Inr t"
    using parse_tags_returns by blast
  show ?thesis
  proof (cases "show_value")
    case False
    with rows la pt show ?thesis
      by (auto simp: get_secret_def visible_rows_def NotFoundError_def split: if_splits)
  next
    case True
    show ?thesis
    proof (cases "decrypt_value e (encrypted_value result)")
      case (Inl x)
      with decrypt_value_error [OF Inl] rows la pt True show ?thesis
        by (auto simp: get_secret_def visible_rows_def NotFoundError_def split: if_splits)
    next
      case (Inr v)
      with rows la pt True show ?thesis
        by (auto simp: get_secret_def visible_rows_def NotFoundError_def split: if_splits)
    qed
  qed
qed

lemma example_owners_registered: "owners_registered (db example_system)"
  by (simp add: owners_registered_def example_system_def example_db_def)

lemma find_filter_empty: "filter P xs = [] \<longleftrightarrow> find P xs = None"
  by (simp add: filter_empty_conv find_None_set)

lemma lookup_secret_map:
  assumes "\<And>x. row_id (f x) = row_id x"
  shows "lookup_secret (d\<lparr>secrets := map f (secrets d)\<rparr>) sid = map_option f (lookup_secret d sid)"
proof -
  have "(\<lambda>r. row_id r = sid) \<circ> f = (\<lambda>r. row_id r = sid)"
    using assms by (simp add: fun_eq_iff)
  moreover have "find P (map f xs) = map_option f (find (P \<circ> f) xs)" for P and xs :: "secret_row list"
    by (induction xs) auto
  ultimately show ?thesis by (simp add: lookup_secret_def)
qed

lemma primary_key_map:
  assumes "\<And>x. row_id (f x) = row_id x"
  shows "primary_key (d\<lparr>secrets := map f (secrets d)\<rparr>) = primary_key d"
proof -
  have "row_id \<circ> f = row_id"
    using assms by (simp add: fun_eq_iff)
  then show ?thesis by (simp add: primary_key_def)
qed

lemma delete_secret_none:
  assumes "find (\<lambda>r. row_id r = sid \<and> owner_id r = user_id user \<and> deleted_at r = None)
             (secrets (db st)) = None"
  shows "delete_secret e sid user st = (Inl NotFoundError, st)"
  using assms by (simp add: delete_secret_def Let_def find_filter_empty NotFoundError_def)

lemma delete_secret_some:
  assumes "find (\<lambda>r. row_id r = sid \<and> owner_id r = user_id user \<and> deleted_at r = None)
             (secrets (db st)) = Some r"
  shows "fst (delete_secret e sid user st) = Inr ''Secret deleted successfully'' \<and>
         db (snd (delete_secret e sid user st))
           = (db st)\<lparr>secrets := map (tombstone e sid user) (secrets (db st))\<rparr>"
proof -
  from assms have "filter (\<lambda>r. row_id r = sid \<and> owner_id r = user_id user \<and> deleted_at r = None)
             (secrets (db st)) \<noteq> []"
    by (simp add: find_filter_empty)
  then show ?thesis
    by (simp add: delete_secret_def Let_def log_audit_def tombstone_def [abs_def]
             split: sum.splits)
qed

lemma delete_secret_db:
  "db (snd (delete_secret e sid user st)) = db st \<or>
   db (snd (delete_secret e sid user st))
     = (db st)\<lparr>secrets := map (tombstone e sid user) (secrets (db st))\<rparr>"
proof (cases "find (\<lambda>r. row_id r = sid \<and> owner_id r = user_id user \<and> deleted_at r = None)
             (secrets (db st))")
  case None
  from delete_secret_none [OF None] show ?thesis by simp
next
  case (Some r)
  from delete_secret_some [OF Some] show ?thesis by simp
qed

lemma tombstone_row_id: "row_id (tombstone e sid user x) = row_id x"
  by (simp add: tombstone_def)

lemma tombstone_forget: "(tombstone e sid user x)\<lparr>deleted_at := None\<rparr> = x\<lparr>deleted_at := None\<rparr>"
  by (simp add: tombstone_def)

lemma lookup_secret_in:
  "lookup_secret d sid = Some r \<Longrightarrow> r \<in> set (secrets d) \<and> row_id r = sid"
  by (auto simp: lookup_secret_def dest: find_Some_set)

lemma primary_key_same_id:
  "primary_key d \<Longrightarrow> x \<in> set (secrets d) \<Longrightarrow> y \<in> set (secrets d) \<Longrightarrow>
   row_id x = row_id y \<Longrightarrow> x = y"
  by (auto simp: primary_key_def distinct_map inj_on_def)

lemma log_audit_eq:
  "log_audit e (user_id user) action sid (email user) st =
     (Inr (), st\<lparr>audit_posts := audit_posts st @ [audit_entry e user action sid]\<rparr>)"
  by (simp add: log_audit_def audit_entry_def Let_def split: sum.splits)

lemma find_filter_Cons: "find P xs = Some r \<Longrightarrow> \<exists>rest. filter P xs = r # rest"
  by (induction xs) (auto split: if_splits)

lemma find_stronger:
  "find P xs = Some r \<Longrightarrow> Q r \<Longrightarrow> find (\<lambda>x. P x \<and> Q x) xs = Some r"
  by (induction xs) (auto split: if_splits)

lemma apply_updates_row_id: "row_id (apply_updates now us r) = row_id r"
proof -
  have "row_id (foldl (assign now old) r us) = row_id r" for old
  proof (induction us arbitrary: r)
    case Nil
    show ?case by simp
  next
    case (Cons a us)
    have "row_id (assign now old r a) = row_id r" by (cases a) simp_all
    with Cons show ?case by simp
  qed
  then show ?thesis by (simp add: apply_updates_def)
qed

lemma apply_updates_owner: "owner_id (apply_updates now us r) = owner_id r"
proof -
  have "owner_id (foldl (assign now old) r us) = owner_id r" for old
  proof (induction us arbitrary: r)
    case Nil
    show ?case by simp
  next
    case (Cons a us)
    have "owner_id (assign now old r a) = owner_id r" by (cases a) simp_all
    with Cons show ?case by simp
  qed
  then show ?thesis by (simp add: apply_updates_def)
qed

lemma apply_updates_deleted: "deleted_at (apply_updates now us r) = deleted_at r"
proof -
  have "deleted_at (foldl (assign now old) r us) = deleted_at r" for old
  proof (induction us arbitrary: r)
    case Nil
    show ?case by simp
  next
    case (Cons a us)
    have "deleted_at (assign now old r a) = deleted_at r" by (cases a) simp_all
    with Cons show ?case by simp
  qed
  then show ?thesis by (simp add: apply_updates_def)
qed

lemma update_secret_found_eq:
  assumes f: "find (\<lambda>r. row_id r = sid \<and> owner_id r = user_id user \<and> deleted_at r = None)
                (secrets (db st)) = Some ex"
    and v: "value_updates e upd = Inr vs"
  shows "\<exists>r. find (\<lambda>r. row_id r = sid \<and> owner_id r = user_id user) (secrets (db st)) = Some r \<and>
         update_secret e sid upd user st =
           (Inr (''Secret updated successfully'',
                 version (apply_updates (db_now e) (set_list upd vs) r)),
            \<lparr>db = updated_db e sid user ex (set_list upd vs) (db st),
             audit_posts = audit_posts st @ [audit_entry e user ''UPDATE'' sid]\<rparr>)"
proof -
  let ?hit = "\<lambda>r. row_id r = sid \<and> owner_id r = user_id user"
  from find_Some_set [OF f] have "ex \<in> set (secrets (db st))" "?hit ex" by auto
  then have "find ?hit (secrets (db st)) \<noteq> None" by (auto simp: find_None_set)
  then obtain r where r: "find ?hit (secrets (db st)) = Some r" by blast
  from find_filter_Cons [OF r] obtain rest where fl: "filter ?hit (secrets (db st)) = r # rest"
    by blast
  show ?thesis
    apply (rule exI [of _ r])
    apply (simp add: r)
    apply (simp add: update_secret_def f v Let_def log_audit_eq fl set_list_def
                     updated_db_def archived_def)
    done
qed

lemma value_updates_ok:
  "update_encryptable e upd \<Longrightarrow> \<exists>vs. value_updates e upd = Inr vs"
  by (auto simp: update_encryptable_def encryptable_def value_updates_def encrypt_value_ok
           split: option.splits if_splits)

lemma ascii_utf8_valid: "\<forall>c \<in> set s. (of_char c :: nat) < 128 \<Longrightarrow> utf8_valid s"
  by (induction s) (auto simp: Let_def)

lemma length_alphabet: "length alphabet = 70"
  by (simp add: alphabet_def)

lemma alphabet_ascii: "\<forall>c \<in> set alphabet. (of_char c :: nat) < 128"
  by (simp add: alphabet_def)

lemma secrets_choice_in: "secrets_choice e k alphabet \<in> set alphabet"
  by (simp add: secrets_choice_def length_alphabet)

lemma new_password_alphabet: "set (new_password e) \<subseteq> set alphabet"
  by (auto simp: new_password_def secrets_choice_in)

lemma new_password_valid: "utf8_valid (new_password e)"
  using new_password_alphabet [of e] alphabet_ascii by (intro ascii_utf8_valid) blast

lemma new_password_nonempty: "new_password e \<noteq> []"
  by (simp add: new_password_def)

lemma lookup_find_owned:
  assumes "lookup_secret (db st) sid = Some r" "owner_id r = user_id user" "deleted_at r = None"
  shows "find (\<lambda>r. row_id r = sid \<and> owner_id r = user_id user \<and> deleted_at r = None)
           (secrets (db st)) = Some r"
  using find_stronger [of "\<lambda>r. row_id r = sid" "secrets (db st)" r
          "\<lambda>r. owner_id r = user_id user \<and> deleted_at r = None"] assms
  by (simp add: lookup_secret_def)

lemma example_token_valid: "utf8_valid (fernet_encrypt example_env (new_password example_env))"
proof -
  have "\<forall>c \<in> set (''gAAAAA'' @ new_password example_env). (of_char c :: nat) < 128"
    using new_password_alphabet [of example_env] alphabet_ascii by auto
  then have "utf8_valid (''gAAAAA'' @ new_password example_env)"
    by (rule ascii_utf8_valid)
  then show ?thesis by (simp add: example_env_def)
qed

lemma encrypt_value_post [simp]:
  "encrypt_value (e\<lparr>requests_post := f\<rparr>) v = encrypt_value e v"
  by (simp add: encrypt_value_def cong: sum.case_cong)

lemma value_updates_post [simp]:
  "value_updates (e\<lparr>requests_post := f\<rparr>) upd = value_updates e upd"
  by (simp add: value_updates_def cong: option.case_cong sum.case_cong if_cong)

lemma new_password_post [simp]: "new_password (e\<lparr>requests_post := f\<rparr>) = new_password e"
  by (simp add: new_password_def secrets_choice_def)

lemma updated_db_post [simp]:
  "updated_db (e\<lparr>requests_post := f\<rparr>) sid user ex us d = updated_db e sid user ex us d"
  by (simp add: updated_db_def archived_def)

lemma update_secret_value_error:
  assumes "find (\<lambda>r. row_id r = sid \<and> owner_id r = user_id user \<and> deleted_at r = None)
             (secrets (db st)) = Some ex"
    and "value_updates e upd = Inl x"
  shows "update_secret e sid upd user st = (Inl x, st)"
  using assms by (simp add: update_secret_def)

lemma update_secret_post:
  "fst (update_secret (e\<lparr>requests_post := f\<rparr>) sid upd user st)
     = fst (update_secret e sid upd user st) \<and>
   db (snd (update_secret (e\<lparr>requests_post := f\<rparr>) sid upd user st))
     = db (snd (update_secret e sid upd user st))"
proof (cases "find (\<lambda>r. row_id r = sid \<and> owner_id r = user_id user \<and> deleted_at r = None)
                (secrets (db st))")
  case None
  from update_secret_not_found [OF None] show ?thesis by simp
next
  case (Some ex)
  show ?thesis
  proof (cases "value_updates e upd")
    case (Inl x)
    then have "value_updates (e\<lparr>requests_post := f\<rparr>) upd = Inl x" by simp
    from update_secret_value_error [OF Some this] update_secret_value_error [OF Some Inl]
    show ?thesis by simp
  next
    case (Inr vs)
    then have "value_updates (e\<lparr>requests_post := f\<rparr>) upd = Inr vs" by simp
    from update_secret_found_eq [OF Some this] update_secret_found_eq [OF Some Inr]
    show ?thesis by auto
  qed
qed

lemma create_secret_post:
  "fst (create_secret (e\<lparr>requests_post := f\<rparr>) secret user st)
     = fst (create_secret e secret user st) \<and>
   db (snd (create_secret (e\<lparr>requests_post := f\<rparr>) secret user st))
     = db (snd (create_secret e secret user st))"
proof (cases "encrypt_value e (c_value secret)")
  case (Inl x)
  then have "encrypt_value (e\<lparr>requests_post := f\<rparr>) (c_value secret) = Inl x"
    by simp
  with Inl show ?thesis by (simp add: create_secret_def)
next
  case (Inr c)
  then have c: "encrypt_value (e\<lparr>requests_post := f\<rparr>) (c_value secret) = Inr c"
    by simp
  obtain t where "parse_tags (tags_column e (json_dumps (c_tags secret))) = Inr t"
    using parse_tags_returns by blast
  with Inr c show ?thesis
    by (simp add: create_secret_def Let_def log_audit_eq)
qed

lemma delete_secret_post:
  "fst (delete_secret (e\<lparr>requests_post := f\<rparr>) sid user st)
     = fst (delete_secret e sid user st) \<and>
   db (snd (delete_secret (e\<lparr>requests_post := f\<rparr>) sid user st))
     = db (snd (delete_secret e sid user st))"
  by (simp add: delete_secret_def Let_def log_audit_eq)

lemma rotate_secret_post:
  "fst (rotate_secret (e\<lparr>requests_post := f\<rparr>) sid user st)
     = fst (rotate_secret e sid user st) \<and>
   db (snd (rotate_secret (e\<lparr>requests_post := f\<rparr>) sid user st))
     = db (snd (rotate_secret e sid user st))"
proof -
  let ?upd = "\<lparr>u_value = Some (new_password e), u_description = None, u_tags = None\<rparr>"
  let ?e' = "e\<lparr>requests_post := f\<rparr>"
  obtain x st1 where u: "update_secret e sid ?upd user st = (x, st1)"
    by (cases "update_secret e sid ?upd user st") auto
  obtain x' st1' where u': "update_secret ?e' sid ?upd user st = (x', st1')"
    by (cases "update_secret ?e' sid ?upd user st") auto
  from update_secret_post [where e=e and f=f and sid=sid and upd="?upd" and user=user and st=st] u u'
  have eq: "x' = x" "db st1' = db st1" by auto
  show ?thesis
    by (cases x) (simp_all add: rotate_secret_def u u' eq log_audit_eq)
qed

lemma update_secret_effect:
  assumes l: "lookup_secret (db st) sid = Some r"
    and o: "owner_id r = user_id user"
    and d: "deleted_at r = None"
    and v: "value_updates e upd = Inr vs"
  shows "update_secret e sid upd user st =
           (Inr (''Secret updated successfully'',
                 version (apply_updates (db_now e) (set_list upd vs) r)),
            \<lparr>db = updated_db e sid user r (set_list upd vs) (db st),
             audit_posts = audit_posts st @ [audit_entry e user ''UPDATE'' sid]\<rparr>)"
proof -
  note f = lookup_find_owned [OF l o d]
  from l o have "find (\<lambda>r. row_id r = sid \<and> owner_id r = user_id user) (secrets (db st)) = Some r"
    using find_stronger [of "\<lambda>r. row_id r = sid" "secrets (db st)" r
            "\<lambda>r. owner_id r = user_id user"]
    by (simp add: lookup_secret_def)
  with update_secret_found_eq [OF f v] show ?thesis by auto
qed

lemma lookup_updated_db:
  assumes "lookup_secret d sid = Some r" and "owner_id r = user_id user"
  shows "lookup_secret (updated_db e sid user ex us d) sid
           = Some (apply_updates (db_now e) us r)"
proof -
  let ?f = "\<lambda>r. if row_id r = sid \<and> owner_id r = user_id user
                 then apply_updates (db_now e) us r else r"
  have rid: "row_id (?f x) = row_id x" for x
    by (simp add: apply_updates_row_id)
  have "lookup_secret (updated_db e sid user ex us d) sid
          = lookup_secret (d\<lparr>secrets := map ?f (secrets d)\<rparr>) sid"
    by (simp add: updated_db_def lookup_secret_def)
  also have "\<dots> = map_option ?f (lookup_secret d sid)"
    using rid by (rule lookup_secret_map)
  finally show ?thesis
    using assms lookup_secret_in [OF assms(1)] by simp
qed

lemma version_foldl_assign:
  "version (foldl (assign now old) x us)
     = (if IncrementVersion \<in> set us then version old + 1 else version x)"
proof (induction us arbitrary: x)
  case Nil
  show ?case by simp
next
  case (Cons a us)
  show ?case by (cases a) (simp_all add: Cons)
qed

lemma version_apply_updates:
  "version (apply_updates now us r)
     = (if IncrementVersion \<in> set us then version r + 1 else version r)"
  by (simp add: apply_updates_def version_foldl_assign)

lemma increments_iff_value_changing:
  "value_updates e upd = Inr vs \<Longrightarrow>
   IncrementVersion \<in> set (set_list upd vs) \<longleftrightarrow> value_changing upd"
  by (auto simp: value_updates_def set_list_def value_changing_def
           split: option.splits if_splits sum.splits)

lemma update_step:
  assumes l: "lookup_secret (db st) sid = Some r"
    and o: "owner_id r = user_id user"
    and d: "deleted_at r = None"
    and u: "update_secret e sid upd user st = (Inr res, st1)"
  shows "\<exists>r1. lookup_secret (db st1) sid = Some r1 \<and> owner_id r1 = user_id user \<and>
              deleted_at r1 = None \<and>
              version r1 = (if value_changing upd then version r + 1 else version r) \<and>
              res = (''Secret updated successfully'', version r1) \<and>
              secret_versions (db st1) = secret_versions (db st) @ [archived e sid user r]"
proof (cases "value_updates e upd")
  case (Inl x)
  from update_secret_value_error [OF lookup_find_owned [OF l o d] Inl] u show ?thesis by simp
next
  case (Inr vs)
  let ?r1 = "apply_updates (db_now e) (set_list upd vs) r"
  from update_secret_effect [OF l o d Inr] u
  have st1: "st1 = \<lparr>db = updated_db e sid user r (set_list upd vs) (db st),
                    audit_posts = audit_posts st @ [audit_entry e user ''UPDATE'' sid]\<rparr>"
    and res: "res = (''Secret updated successfully'', version ?r1)"
    by simp_all
  have "lookup_secret (db st1) sid = Some ?r1"
    by (simp add: st1 lookup_updated_db [OF l o])
  moreover have "version ?r1 = (if value_changing upd then version r + 1 else version r)"
    by (simp add: version_apply_updates increments_iff_value_changing [OF Inr])
  moreover have "secret_versions (db st1) = secret_versions (db st) @ [archived e sid user r]"
    by (simp add: st1 updated_db_def)
  ultimately show ?thesis
    using o d res by (simp add: apply_updates_owner apply_updates_deleted)
qed

lemma versions_of_append:
  "secret_versions d' = secret_versions d @ [archived e sid user r] \<Longrightarrow>
   versions_of d' sid = versions_of d sid @ [archived e sid user r]"
  by (simp add: versions_of_def archived_def)

lemma run_updates_versions:
  assumes "lookup_secret (db st) sid = Some r"
    and "owner_id r = user_id user"
    and "deleted_at r = None"
    and "run_updates us sid user st = Inr st'"
  shows "\<exists>r'. lookup_secret (db st') sid = Some r' \<and>
           owner_id r' = user_id user \<and> deleted_at r' = None \<and>
           version r' = version r + int (length (filter value_changing (map snd us))) \<and>
           map sv_version (versions_of (db st') sid)
             = map sv_version (versions_of (db st) sid) @
               archived_versions (version r) (map snd us)"
  using assms
proof (induction us arbitrary: st r)
  case Nil
  then show ?case by simp
next
  case (Cons a us)
  obtain e upd where a: "a = (e, upd)" by (cases a)
  obtain x st1 where u: "update_secret e sid upd user st = (x, st1)"
    by (cases "update_secret e sid upd user st")
  with Cons.prems(4) a obtain res where x: "x = Inr res"
    and run: "run_updates us sid user st1 = Inr st'"
    by (cases x) auto
  from update_step [OF Cons.prems(1-3) u [unfolded x]]
  obtain r1 where r1: "lookup_secret (db st1) sid = Some r1" "owner_id r1 = user_id user"
      "deleted_at r1 = None"
      "version r1 = (if value_changing upd then version r + 1 else version r)"
      "secret_versions (db st1) = secret_versions (db st) @ [archived e sid user r]"
    by blast
  from Cons.IH [OF r1(1-3) run]
  obtain r' where r': "lookup_secret (db st') sid = Some r'"
      "owner_id r' = user_id user" "deleted_at r' = None"
      "version r' = version r1 + int (length (filter value_changing (map snd us)))"
      "map sv_version (versions_of (db st') sid)
         = map sv_version (versions_of (db st1) sid) @
           archived_versions (version r1) (map snd us)"
    by blast
  from versions_of_append [OF r1(5)]
  have "map sv_version (versions_of (db st1) sid)
          = map sv_version (versions_of (db st) sid) @ [version r]"
    by (simp add: archived_def)
  with r' r1(4) a show ?case by simp
qed

lemma length_archived_versions: "length (archived_versions v us) = length us"
  by (induction us arbitrary: v) simp_all

lemma archived_versions_all_changing:
  "list_all value_changing us \<Longrightarrow> archived_versions v us = [v..v + int (length us) - 1]"
proof (induction us arbitrary: v)
  case Nil
  show ?case by simp
next
  case (Cons upd us)
  then have "archived_versions (v + 1) us = [v + 1..v + 1 + int (length us) - 1]"
    by simp
  with Cons.prems show ?case
    by (simp add: upto_rec1 [of v])
qed

lemma run_updates_returns:
  assumes "lookup_secret (db st) sid = Some r"
    and "owner_id r = user_id user"
    and "deleted_at r = None"
    and "list_all (\<lambda>(e, upd). update_encryptable e upd) us"
  shows "\<exists>st'. run_updates us sid user st = Inr st'"
  using assms
proof (induction us arbitrary: st r)
  case Nil
  show ?case by simp
next
  case (Cons a us)
  obtain e upd where a: "a = (e, upd)" by (cases a)
  with Cons.prems(4) obtain vs where vs: "value_updates e upd = Inr vs"
    using value_updates_ok by auto
  note u = update_secret_effect [OF Cons.prems(1-3) vs]
  from update_step [OF Cons.prems(1-3) u]
  obtain r1 where "lookup_secret
       (db \<lparr>db = updated_db e sid user r (set_list upd vs) (db st),
            audit_posts = audit_posts st @ [audit_entry e user ''UPDATE'' sid]\<rparr>) sid = Some r1"
    "owner_id r1 = user_id user" "deleted_at r1 = None"
    by blast
  from Cons.IH [OF this] Cons.prems(4) a u show ?case by simp
qed

lemma example_secret_owned:
  "owner_id (hd (secrets example_db)) = user_id developer_caller"
  "deleted_at (hd (secrets example_db)) = None"
  "version (hd (secrets example_db)) = 1"
  by (simp_all add: example_db_def developer_caller_def)

lemma length_new_password: "length (new_password e) = 20"
  by (simp add: new_password_def)

lemma new_password_nth:
  "k < 20 \<Longrightarrow> new_password e ! k = alphabet ! (randbelow e k 70 mod 70)"
  by (simp add: new_password_def secrets_choice_def length_alphabet)

lemma new_password_reachable:
  assumes "length w = 20" and "set w \<subseteq> set alphabet"
  shows "\<exists>f. new_password (e\<lparr>randbelow := f\<rparr>) = w"
proof -
  have "\<exists>i. i < 70 \<and> alphabet ! i = w ! k" if "k < 20" for k
  proof -
    from that assms have "w ! k \<in> set alphabet" by (auto simp: subset_iff)
    then show ?thesis by (auto simp: in_set_conv_nth length_alphabet)
  qed
  then obtain idx where idx: "\<And>k. k < 20 \<Longrightarrow> idx k < 70 \<and> alphabet ! idx k = w ! k"
    by metis
  have "new_password (e\<lparr>randbelow := (\<lambda>k n. idx k)\<rparr>) = w"
  proof (rule nth_equalityI)
    show "length (new_password (e\<lparr>randbelow := (\<lambda>k n. idx k)\<rparr>)) = length w"
      using assms by (simp add: length_new_password)
    fix k
    assume "k < length (new_password (e\<lparr>randbelow := (\<lambda>k n. idx k)\<rparr>))"
    then have k: "k < 20" by (simp add: length_new_password)
    with idx [OF k] show "new_password (e\<lparr>randbelow := (\<lambda>k n. idx k)\<rparr>) ! k = w ! k"
      by (simp add: new_password_nth)
  qed
  then show ?thesis by blast
qed

lemma apply_updates_row:
  assumes "update_encryptable e upd" and "value_updates e upd = Inr vs"
  shows "apply_updates (db_now e) (set_list upd vs) r =
           r\<lparr>encrypted_value :=
                (case u_value upd of
                   None \<Rightarrow> encrypted_value r
                 | Some v \<Rightarrow> if v = [] then encrypted_value r else fernet_encrypt e v),
              version := (if value_changing upd then version r + 1 else version r),
              description :=
                (case u_description upd of None \<Rightarrow> description r | Some d \<Rightarrow> Some d),
              tags := (case u_tags upd of None \<Rightarrow> tags r | Some ts \<Rightarrow> json_dumps (Some ts)),
              updated_at := db_now e\<rparr>"
proof -
  have vs: "vs = (case u_value upd of
                    None \<Rightarrow> []
                  | Some v \<Rightarrow> if v = [] then []
                             else [SetEncryptedValue (fernet_encrypt e v), IncrementVersion])"
    using assms
    by (auto simp: value_updates_def update_encryptable_def encryptable_def encrypt_value_ok
             split: option.splits if_splits)
  show ?thesis
    by (cases "u_value upd"; cases "u_description upd"; cases "u_tags upd")
       (simp_all add: vs apply_updates_def set_list_def value_changing_def)
qed

lemma rotate_secret_unfold:
  "rotate_secret e sid user st =
     (case update_secret e sid
             \<lparr>u_value = Some (new_password e), u_description = None, u_tags = None\<rparr> user st of
        (Inl x, st1) \<Rightarrow> (Inl x, st1)
      | (Inr u, st1) \<Rightarrow>
          (Inr (''Secret rotated successfully'', new_password e),
           st1\<lparr>audit_posts := audit_posts st1 @ [audit_entry e user ''ROTATE'' sid]\<rparr>))"
  by (simp add: rotate_secret_def Let_def log_audit_eq split: prod.splits sum.splits)

section \<open>Tag decoding: what \<open>parse_tags\<close> returns\<close>

text \<open>
  Claim C2, as the code has it. \<open>parse_tags\<close> never raises. \<open>None\<close> gives the empty
  list; a list or a tuple is returned as a list of the same elements; a string that
  \<open>json.loads\<close> rejects, a bare word and a damaged serialisation alike, gives the
  one-element list holding that string; a string that decodes to a JSON array gives
  that list; a value of any other type gives the empty list.
\<close>

theorem parse_tags_total_and_defensive:
  "(\<exists>v. parse_tags t = Inr v) \<and>
   parse_tags PNone = Inr (PList []) \<and>
   parse_tags (PList xs) = Inr (PList xs) \<and>
   parse_tags (PTuple xs) = Inr (PList xs) \<and>
   (json_loads s = Inl e \<longrightarrow> parse_tags (PStr s) = Inr (PList [PStr s])) \<and>
   (json_loads s' = Inr (PList ys) \<longrightarrow> parse_tags (PStr s') = Inr (PList ys)) \<and>
   parse_tags (PBool b) = Inr (PList []) \<and>
   parse_tags (PInt i) = Inr (PList []) \<and>
   parse_tags (PFloat f) = Inr (PList []) \<and>
   parse_tags (PDict d) = Inr (PList [])"
  using parse_tags_returns [of t] by simp

text \<open>
  C2, witness: the bare word \<open>prod\<close> is not JSON and comes back as the one-element
  list; the serialised pair of tags comes back as the list of both.
\<close>

theorem parse_tags_total_and_defensive_witness:
  \<open>json_loads ''prod'' = Inl JSONDecodeError \<and>
   parse_tags (PStr ''prod'') = Inr (PList [PStr ''prod'']) \<and>
   json_loads ''["db", "prod"]'' = Inr (PList [PStr ''db'', PStr ''prod'']) \<and>
   parse_tags (PStr ''["db", "prod"]'') = Inr (PList [PStr ''db'', PStr ''prod''])\<close>
proof -
  have h1: "json_loads ''prod'' = Inl JSONDecodeError"
    by code_simp
  have h2: \<open>json_loads ''["db", "prod"]'' = Inr (PList [PStr ''db'', PStr ''prod''])\<close>
    by code_simp
  from parse_tags_total_and_defensive
    [of PNone "[]" "''prod''" JSONDecodeError _ "[PStr ''db'', PStr ''prod'']" True 0 "[]" "[]"]
  show ?thesis using h1 h2 by blast
qed

text \<open>
  C2, counterexample to the claim as stated: the array cut short after its first
  element is a malformed serialised form, and it is not treated as empty but returned
  as a one-element list; and the stored text \<open>null\<close>, which is what the service writes
  for a secret created without tags, is decoded to \<open>None\<close>, which is not a list.
\<close>

theorem parse_tags_malformed_counterexample:
  \<open>json_loads ''["a"'' = Inl JSONDecodeError \<and>
   parse_tags (PStr ''["a"'') = Inr (PList [PStr ''["a"'']) \<and>
   parse_tags (PStr ''["a"'') \<noteq> Inr (PList []) \<and>
   json_dumps None = ''null'' \<and>
   json_loads ''null'' = Inr PNone \<and>
   parse_tags (PStr ''null'') = Inr PNone\<close>
  by code_simp

section \<open>The crypto envelope: round trip\<close>

subsection \<open>Base64\<close>

lemma b64_char_facts:
  assumes "i < 64"
  shows "b64_index (b64_char i) = Some i" "b64_char i \<noteq> CHR ''=''"
    "(of_char (b64_char i) :: nat) < 128"
proof -
  consider "i < 26" | "26 \<le> i" "i < 52" | "52 \<le> i" "i < 62" | "i = 62" | "i = 63"
    using assms by linarith
  then show "b64_index (b64_char i) = Some i"
    by cases (auto simp: b64_char_def b64_index_def Let_def)
  show "b64_char i \<noteq> CHR ''=''"
  proof
    assume "b64_char i = CHR ''=''"
    then have "b64_index (b64_char i) = b64_index (CHR ''='')" by simp
    with \<open>b64_index (b64_char i) = Some i\<close> show False
      by (simp add: b64_index_def)
  qed
  from \<open>i < 64\<close> show "(of_char (b64_char i) :: nat) < 128"
    by (auto simp: b64_char_def)
qed

lemma of_char_less_256: "(of_char c :: nat) < 256"
proof -
  have "(of_char c :: nat) mod 256 < 256" by simp
  then show ?thesis by (simp only: of_char_mod_256)
qed

lemma sextets:
  fixes x y z :: nat
  assumes "x < 256" "y < 256" "z < 256"
  shows "x div 4 < 64" "x mod 4 * 16 + y div 16 < 64" "y mod 16 * 4 + z div 64 < 64"
    "z mod 64 < 64" "x mod 4 * 16 < 64" "y mod 16 * 4 < 64"
proof -
  from assms have d: "y div 16 < 16" "z div 64 < 4" by simp_all
  have m: "x mod 4 < 4" "y mod 16 < 16" by simp_all
  from assms show "x div 4 < 64" by simp
  from d m show "x mod 4 * 16 + y div 16 < 64" by linarith
  from d m show "y mod 16 * 4 + z div 64 < 64" by linarith
  show "z mod 64 < 64" by simp
  from m show "x mod 4 * 16 < 64" by linarith
  from m show "y mod 16 * 4 < 64" by linarith
qed

lemma octets:
  fixes x y z :: nat
  assumes "y < 256" "z < 256"
  shows "x div 4 * 4 + (x mod 4 * 16 + y div 16) div 16 = x"
    "(x mod 4 * 16 + y div 16) mod 16 * 16 + (y mod 16 * 4 + z div 64) div 4 = y"
    "(y mod 16 * 4 + z div 64) mod 4 * 64 + z mod 64 = z"
    "x div 4 * 4 + (x mod 4 * 16) div 16 = x"
    "(x mod 4 * 16 + y div 16) mod 16 * 16 + (y mod 16 * 4) div 4 = y"
proof -
  from assms have d: "y div 16 < 16" "z div 64 < 4" by simp_all
  from d have 1: "(x mod 4 * 16 + y div 16) div 16 = x mod 4" by simp
  from d have 2: "(x mod 4 * 16 + y div 16) mod 16 = y div 16" by simp
  from d have 3: "(y mod 16 * 4 + z div 64) div 4 = y mod 16" by simp
  from d have 4: "(y mod 16 * 4 + z div 64) mod 4 = z div 64" by simp
  show "x div 4 * 4 + (x mod 4 * 16 + y div 16) div 16 = x" unfolding 1 by simp
  show "(x mod 4 * 16 + y div 16) mod 16 * 16 + (y mod 16 * 4 + z div 64) div 4 = y"
    unfolding 2 3 by simp
  show "(y mod 16 * 4 + z div 64) mod 4 * 64 + z mod 64 = z" unfolding 4 by simp
  show "x div 4 * 4 + (x mod 4 * 16) div 16 = x" by simp
  show "(x mod 4 * 16 + y div 16) mod 16 * 16 + (y mod 16 * 4) div 4 = y"
    unfolding 2 by simp
qed

lemma decode_group_encode:
  "decode_group (b64_char (of_char a div 4))
     (b64_char (of_char a mod 4 * 16 + of_char b div 16))
     (b64_char (of_char b mod 16 * 4 + of_char c div 64))
     (b64_char (of_char c mod 64)) = Some [a, b, c]"
  using sextets [OF of_char_less_256 [of a] of_char_less_256 [of b] of_char_less_256 [of c]]
    octets [OF of_char_less_256 [of b] of_char_less_256 [of c]]
  by (simp add: decode_group_def b64_char_facts)

lemma decode_last_encode1:
  "decode_last (b64_char (of_char a div 4)) (b64_char (of_char a mod 4 * 16))
     (CHR ''='') (CHR ''='') = Some [a]"
  using sextets [OF of_char_less_256 [of a] of_char_less_256 [of a] of_char_less_256 [of a]]
    octets [OF of_char_less_256 [of a] of_char_less_256 [of a]]
  by (simp add: decode_last_def b64_char_facts)

lemma decode_last_encode2:
  "decode_last (b64_char (of_char a div 4))
     (b64_char (of_char a mod 4 * 16 + of_char b div 16))
     (b64_char (of_char b mod 16 * 4)) (CHR ''='') = Some [a, b]"
  using sextets [OF of_char_less_256 [of a] of_char_less_256 [of b] of_char_less_256 [of b]]
    octets [OF of_char_less_256 [of b] of_char_less_256 [of b]]
  by (simp add: decode_last_def b64_char_facts)

lemma decode_last_encode3:
  "decode_last (b64_char (of_char a div 4))
     (b64_char (of_char a mod 4 * 16 + of_char b div 16))
     (b64_char (of_char b mod 16 * 4 + of_char c div 64))
     (b64_char (of_char c mod 64)) = Some [a, b, c]"
  using sextets [OF of_char_less_256 [of a] of_char_less_256 [of b] of_char_less_256 [of c]]
  by (simp add: decode_last_def b64_char_facts decode_group_encode)

lemma urlsafe_b64encode_Nil: "urlsafe_b64encode d = [] \<longleftrightarrow> d = []"
  by (induction d rule: urlsafe_b64encode.induct) (simp_all add: Let_def)

lemma b64_roundtrip: "urlsafe_b64decode (urlsafe_b64encode d) = Some d"
proof (induction d rule: urlsafe_b64encode.induct)
  case 1
  show ?case by simp
next
  case (2 a)
  show ?case by (simp add: Let_def decode_last_encode1)
next
  case (3 a b)
  show ?case by (simp add: Let_def decode_last_encode2)
next
  case (4 a b c rest)
  show ?case
  proof (cases "urlsafe_b64encode rest")
    case Nil
    then have "rest = []" by (simp add: urlsafe_b64encode_Nil)
    then show ?thesis by (simp add: Let_def decode_last_encode3)
  next
    case (Cons e es)
    with 4 show ?thesis by (simp add: Let_def decode_group_encode)
  qed
qed

lemma urlsafe_b64encode_ascii:
  "\<forall>ch \<in> set (urlsafe_b64encode d). (of_char ch :: nat) < 128"
proof (induction d rule: urlsafe_b64encode.induct)
  case 1
  show ?case by simp
next
  case (2 a)
  from sextets [OF of_char_less_256 [of a] of_char_less_256 [of a] of_char_less_256 [of a]]
  show ?case by (simp add: Let_def b64_char_facts)
next
  case (3 a b)
  from sextets [OF of_char_less_256 [of a] of_char_less_256 [of b] of_char_less_256 [of b]]
  show ?case by (simp add: Let_def b64_char_facts)
next
  case (4 a b c rest)
  from sextets [OF of_char_less_256 [of a] of_char_less_256 [of b] of_char_less_256 [of c]] 4
  show ?case by (simp add: Let_def b64_char_facts)
qed

subsection \<open>Padding, CBC and the token\<close>

lemma xor_char_cancel: "xor_char (xor_char a b) b = a"
proof -
  have "xor (of_char a :: nat) (of_char b) mod 256
        = xor (of_char a mod 256) (of_char b mod 256)"
    using take_bit_xor [of 8 "of_char a :: nat" "of_char b"] by (simp add: take_bit_eq_mod)
  then have "xor (of_char a :: nat) (of_char b) mod 256 = xor (of_char a) (of_char b)"
    by (simp only: of_char_mod_256)
  then have "xor (xor (of_char a :: nat) (of_char b) mod 256) (of_char b) = of_char a"
    by (simp add: xor.assoc)
  then show ?thesis by (simp add: xor_char_def)
qed

lemma xor_bytes_cancel: "length a = length b \<Longrightarrow> xor_bytes (xor_bytes a b) b = a"
proof (induction a arbitrary: b)
  case Nil
  then show ?case by (simp add: xor_bytes_def)
next
  case (Cons x a)
  then obtain y b' where b: "b = y # b'" by (cases b) auto
  with Cons show ?case by (simp add: xor_bytes_def xor_char_cancel)
qed

lemma length_xor_bytes: "length (xor_bytes a b) = min (length a) (length b)"
  by (simp add: xor_bytes_def)

lemma length_pkcs7_pad: "length (pkcs7_pad d) mod 16 = 0" "pkcs7_pad d \<noteq> []"
proof -
  have "length d mod 16 < 16" by simp
  then have n: "length d mod 16 + (16 - length d mod 16) = 16" by linarith
  have "length d = length d div 16 * 16 + length d mod 16" by simp
  then have "length d + (16 - length d mod 16) = length d div 16 * 16 + 16"
    using n by linarith
  then show "length (pkcs7_pad d) mod 16 = 0" by (simp add: pkcs7_pad_def Let_def)
  from n show "pkcs7_pad d \<noteq> []" by (auto simp: pkcs7_pad_def Let_def)
qed

lemma pkcs7_roundtrip: "pkcs7_unpad (pkcs7_pad d) = Some d"
proof -
  define n where "n = 16 - length d mod 16"
  have "length d mod 16 < 16" by simp
  then have n: "0 < n" "n \<le> 16" by (simp_all add: n_def)
  then have l: "last (pkcs7_pad d) = char_of n"
    by (simp add: pkcs7_pad_def n_def [symmetric])
  from n have o: "(of_char (char_of n :: char) :: nat) = n" by simp
  have p: "pkcs7_pad d = d @ replicate n (char_of n)"
    by (simp add: pkcs7_pad_def n_def [symmetric])
  have "length (pkcs7_pad d) - n = length d" by (simp add: p)
  with n l o length_pkcs7_pad [of d] show ?thesis
    by (simp add: pkcs7_unpad_def Let_def) (simp add: p)
qed

lemma cbc_roundtrip:
  assumes E: "\<And>b. length b = 16 \<Longrightarrow> length (E b) = 16 \<and> D (E b) = b"
  shows "length d mod 16 = 0 \<Longrightarrow> length prev = 16 \<Longrightarrow>
         length (cbc_encrypt E prev d) = length d \<and>
         cbc_decrypt D prev (cbc_encrypt E prev d) = d"
proof (induction "length d" arbitrary: d prev rule: less_induct)
  case less
  show ?case
  proof (cases "d = []")
    case True
    then show ?thesis by (simp add: cbc_encrypt.simps cbc_decrypt.simps)
  next
    case False
    with less.prems have len: "16 \<le> length d" by (cases "length d < 16") auto
    define b where "b = xor_bytes (take 16 d) prev"
    define c where "c = E b"
    from len less.prems have lb: "length b = 16" by (simp add: b_def length_xor_bytes)
    with E have lc: "length c = 16" and dc: "D c = b" by (simp_all add: c_def)
    from len have "(length d - 16) mod 16 = length d mod 16"
      by (metis le_mod_geq mod_less_divisor mod_mod_trivial zero_less_numeral mod_if
            add_diff_cancel_right' le_add_diff_inverse2 mod_add_self2)
    with less.prems have m: "length (drop 16 d) mod 16 = 0" by simp
    from len False have "length (drop 16 d) < length d" by simp
    from less.hyps [OF this m lc]
    have ih: "length (cbc_encrypt E c (drop 16 d)) = length (drop 16 d)"
      "cbc_decrypt D c (cbc_encrypt E c (drop 16 d)) = drop 16 d" by simp_all
    have enc: "cbc_encrypt E prev d = c @ cbc_encrypt E c (drop 16 d)"
      using False by (subst cbc_encrypt.simps) (simp add: Let_def b_def c_def)
    from len less.prems have "xor_bytes b prev = take 16 d"
      unfolding b_def by (intro xor_bytes_cancel) simp
    moreover from lc have "c \<noteq> []" by auto
    ultimately have "cbc_decrypt D prev (c @ cbc_encrypt E c (drop 16 d)) = d"
      using lc dc ih by (subst cbc_decrypt.simps) (simp add: Let_def)
    moreover from lc ih len have "length (c @ cbc_encrypt E c (drop 16 d)) = length d" by simp
    ultimately show ?thesis by (simp only: enc)
  qed
qed

lemma length_be64: "length (be64 t) = 8"
  by (simp add: be64_def)

lemma Fernet_roundtrip:
  assumes "block_cipher F" and "digest_size F" and "length iv = 16"
  shows "Fernet_decrypt F (Fernet_encrypt F t iv data) = Some data"
proof -
  define E where "E = aes_encrypt_block F (encryption_key F)"
  define D where "D = aes_decrypt_block F (encryption_key F)"
  define ct where "ct = cbc_encrypt E iv (pkcs7_pad data)"
  define basic where "basic = CHR 0x80 # be64 t @ iv @ ct"
  define h where "h = hmac_sha256 F (signing_key F) basic"
  from assms(1) have ED: "\<And>b. length b = 16 \<Longrightarrow> length (E b) = 16 \<and> D (E b) = b"
    by (simp add: block_cipher_def E_def D_def)
  from cbc_roundtrip [of E D, OF ED length_pkcs7_pad(1) assms(3)]
  have ct: "length ct = length (pkcs7_pad data)" "cbc_decrypt D iv ct = pkcs7_pad data"
    by (simp_all add: ct_def)
  from assms(2) have lh: "length h = 32" by (simp add: digest_size_def h_def)
  have tok: "Fernet_encrypt F t iv data = urlsafe_b64encode (basic @ h)"
    by (simp add: Fernet_encrypt_def Let_def E_def ct_def basic_def h_def)
  have lb: "length basic = 25 + length ct"
    by (simp add: basic_def length_be64 assms(3))
  have t1: "take (length (basic @ h) - 32) (basic @ h) = basic" by (simp add: lh)
  have t2: "drop (length (basic @ h) - 32) (basic @ h) = h" by (simp add: lh)
  have t3: "take 16 (drop 9 (basic @ h)) = iv"
    by (simp add: basic_def length_be64 assms(3))
  have t4: "take (length (basic @ h) - 32 - 25) (drop 25 (basic @ h)) = ct"
    by (simp add: lh lb) (simp add: basic_def length_be64 assms(3))
  have t5: "basic \<noteq> []" "hd (basic @ h) = CHR 0x80" "\<not> length (basic @ h) < 9"
    by (simp_all add: basic_def length_be64)
  have "Fernet_decrypt F (urlsafe_b64encode (basic @ h)) = pkcs7_unpad (cbc_decrypt D iv ct)"
    unfolding Fernet_decrypt_def b64_roundtrip option.case t1 t2 t3 t4 Let_def
    using t5 ct length_pkcs7_pad(1) [of data] assms(3) by (simp add: h_def D_def)
  then show ?thesis by (simp add: tok ct pkcs7_roundtrip)
qed

lemma Fernet_token_text: "utf8_valid (Fernet_encrypt F t iv data)"
  unfolding Fernet_encrypt_def Let_def by (rule ascii_utf8_valid) (rule urlsafe_b64encode_ascii)

lemma example_token:
  "Fernet_encrypt example_fernet 1714564800 ''0000111122223333'' ''p@ss1'' =
   ''gAAAAABmMi7AMDAwMDExMTEyMjIyMzMzMzg4ODg5OTk5Ojo6AENDcEAwMTIzNDU2Nzg5YWJjZGVmgAAAAABmMi7AMDAwMDExMQ==''"
  by code_simp

subsection \<open>The round trip\<close>

text \<open>
  Claim C8. Let the cipher of the service be Fernet over a block cipher and a 32-byte
  digest: encrypting \<open>p\<close> yields the Fernet token of \<open>p\<close> for some time below \<open>2 ^ 64\<close> and
  some 16-byte IV, and decrypting that token is Fernet's decryption. Then for every
  plaintext \<open>p\<close> that \<open>str.encode()\<close> accepts, \<open>encrypt_value\<close> returns the token and
  \<open>decrypt_value\<close> of the token returns \<open>p\<close>. For a plaintext that \<open>str.encode()\<close> rejects
  (a string holding a lone surrogate), \<open>encrypt_value\<close> raises \<open>UnicodeEncodeError\<close>, so
  the round trip does not hold of all strings.
\<close>

theorem encrypt_decrypt_roundtrip:
  assumes "block_cipher F" and "digest_size F"
    and "t < 2 ^ 64" and "length iv = 16"
    and "fernet_encrypt e p = Fernet_encrypt F t iv p"
    and "fernet_decrypt e (fernet_encrypt e p) = Fernet_decrypt F (fernet_encrypt e p)"
  shows "(utf8_valid p \<longrightarrow>
            encrypt_value e p = Inr (Fernet_encrypt F t iv p) \<and>
            decrypt_value e (Fernet_encrypt F t iv p) = Inr p) \<and>
         (\<not> utf8_valid p \<longrightarrow> encrypt_value e p = Inl UnicodeEncodeError)"
proof -
  have v: "utf8_valid (Fernet_encrypt F t iv p)" by (rule Fernet_token_text)
  from assms have d: "fernet_decrypt e (Fernet_encrypt F t iv p) = Some p"
    by (simp add: Fernet_roundtrip)
  from v d assms(5) show ?thesis
    by (simp add: encrypt_value_def decrypt_value_def str_encode_def bytes_decode_def)
qed

text \<open>
  C8, witness: the round trip of \<open>p@ss1\<close> through the sample cipher, with the token
  written out.
\<close>

theorem encrypt_decrypt_roundtrip_witness:
  "utf8_valid ''p@ss1'' \<and>
   encrypt_value example_cipher_env ''p@ss1'' =
     Inr ''gAAAAABmMi7AMDAwMDExMTEyMjIyMzMzMzg4ODg5OTk5Ojo6AENDcEAwMTIzNDU2Nzg5YWJjZGVmgAAAAABmMi7AMDAwMDExMQ=='' \<and>
   decrypt_value example_cipher_env
     ''gAAAAABmMi7AMDAwMDExMTEyMjIyMzMzMzg4ODg5OTk5Ojo6AENDcEAwMTIzNDU2Nzg5YWJjZGVmgAAAAABmMi7AMDAwMDExMQ==''
     = Inr ''p@ss1''"
proof -
  have h1: "block_cipher example_fernet"
    by (simp add: block_cipher_def example_fernet_def)
  have h2: "digest_size example_fernet"
    by (auto simp: digest_size_def example_fernet_def min_def)
  have h3: "(1714564800 :: nat) < 2 ^ 64" by simp
  have h4: "length ''0000111122223333'' = 16" by simp
  have h5: "fernet_encrypt example_cipher_env ''p@ss1'' =
            Fernet_encrypt example_fernet 1714564800 ''0000111122223333'' ''p@ss1''"
    by (simp add: example_cipher_env_def)
  have h6: "fernet_decrypt example_cipher_env (fernet_encrypt example_cipher_env ''p@ss1'') =
            Fernet_decrypt example_fernet (fernet_encrypt example_cipher_env ''p@ss1'')"
    by (simp add: example_cipher_env_def)
  have v: "utf8_valid ''p@ss1''" by code_simp
  from encrypt_decrypt_roundtrip [OF h1 h2 h3 h4 h5 h6] v show ?thesis
    by (simp only: example_token simp_thms)
qed

text \<open>
  C8, counterexample to the round trip for all strings: the string that holds the lone
  surrogate U+D800 (as bytes \<open>ED A0 80\<close>) is not encodable; \<open>encrypt_value\<close> raises
  \<open>UnicodeEncodeError\<close> for it, and \<open>decrypt(encrypt(p))\<close> does not evaluate to \<open>p\<close>.
\<close>

theorem lone_surrogate_counterexample:
  "\<not> utf8_valid [CHR 0xED, CHR 0xA0, CHR 0x80] \<and>
   encrypt_value example_cipher_env [CHR 0xED, CHR 0xA0, CHR 0x80] = Inl UnicodeEncodeError \<and>
   (case encrypt_value example_cipher_env [CHR 0xED, CHR 0xA0, CHR 0x80] of
      Inl x \<Rightarrow> Inl x
    | Inr c \<Rightarrow> decrypt_value example_cipher_env c) \<noteq> Inr [CHR 0xED, CHR 0xA0, CHR 0x80]"
proof -
  have v: "\<not> utf8_valid [CHR 0xED, CHR 0xA0, CHR 0x80]" by code_simp
  then have "encrypt_value example_cipher_env [CHR 0xED, CHR 0xA0, CHR 0x80]
             = Inl UnicodeEncodeError"
    by (simp add: encrypt_value_def str_encode_def)
  with v show ?thesis by simp
qed

section \<open>Create: the role test\<close>

text \<open>
  Claim C5. \<open>create_secret\<close> fails with \<open>ForbiddenError\<close> exactly when the caller's role
  is \<open>user\<close>, and then the store is untouched. Any other role, \<open>admin\<close> and
  \<open>developer\<close> among them, is let through: when the value is a well-formed string and
  the cipher's token is text, the call returns a secret with version 1, and the one row
  it adds to the store has version 1, the caller as owner and no tombstone.
\<close>

theorem create_forbidden_iff_role_user:
  "(fst (create_secret e secret user st) = Inl ForbiddenError \<longleftrightarrow> role user = ''user'') \<and>
   (role user = ''user'' \<longrightarrow> snd (create_secret e secret user st) = st) \<and>
   (role user \<noteq> ''user'' \<and> utf8_valid (c_value secret) \<and>
    utf8_valid (fernet_encrypt e (c_value secret)) \<longrightarrow>
      (\<exists>row.
         secrets (db (snd (create_secret e secret user st))) = secrets (db st) @ [row] \<and>
         version row = 1 \<and> owner_id row = user_id user \<and> deleted_at row = None \<and>
         encrypted_value row = fernet_encrypt e (c_value secret) \<and>
         (\<exists>resp. fst (create_secret e secret user st) = Inr resp \<and>
                 r_version resp = 1 \<and> r_id resp = row_id row)))"
proof (intro conjI impI)
  show "fst (create_secret e secret user st) = Inl ForbiddenError \<longleftrightarrow> role user = ''user''"
  proof
    assume F: "fst (create_secret e secret user st) = Inl ForbiddenError"
    show "role user = ''user''"
    proof (rule ccontr)
      assume R: "role user \<noteq> ''user''"
      show False
      proof (cases "encrypt_value e (c_value secret)")
        case (Inl x)
        with R F have "x = ForbiddenError" by (simp add: create_secret_def)
        with encrypt_value_error [OF Inl] show False by (simp add: ForbiddenError_def)
      next
        case (Inr c)
        obtain st2 where "log_audit e (user_id user) ''CREATE'' (secrets_id_seq (db st))
             (email user)
             (st\<lparr>db := (db st)\<lparr>secrets := secrets (db st) @
                  [\<lparr>row_id = secrets_id_seq (db st), name = c_name secret,
                    stype = c_type secret, encrypted_value = c,
                    description = c_description secret,
                    tags = json_dumps (c_tags secret), owner_id = user_id user,
                    version = 1, created_at = db_now e, updated_at = db_now e,
                    deleted_at = None\<rparr>],
                  secrets_id_seq := secrets_id_seq (db st) + 1\<rparr>\<rparr>) = (Inr (), st2)"
          using log_audit_returns by blast
        moreover obtain t where "parse_tags (tags_column e (json_dumps (c_tags secret))) = Inr t"
          using parse_tags_returns by blast
        ultimately show False using R F Inr
          by (simp add: create_secret_def Let_def)
      qed
    qed
  next
    assume "role user = ''user''"
    then show "fst (create_secret e secret user st) = Inl ForbiddenError"
      by (simp add: create_secret_def ForbiddenError_def)
  qed
next
  assume "role user = ''user''"
  then show "snd (create_secret e secret user st) = st"
    by (simp add: create_secret_def)
next
  assume A: "role user \<noteq> ''user'' \<and> utf8_valid (c_value secret) \<and>
    utf8_valid (fernet_encrypt e (c_value secret))"
  let ?c = "fernet_encrypt e (c_value secret)"
  let ?row = "\<lparr>row_id = secrets_id_seq (db st), name = c_name secret,
                    stype = c_type secret, encrypted_value = ?c,
                    description = c_description secret,
                    tags = json_dumps (c_tags secret), owner_id = user_id user,
                    version = 1, created_at = db_now e, updated_at = db_now e,
                    deleted_at = None\<rparr>"
  let ?st1 = "st\<lparr>db := (db st)\<lparr>secrets := secrets (db st) @ [?row],
                  secrets_id_seq := secrets_id_seq (db st) + 1\<rparr>\<rparr>"
  from A have enc: "encrypt_value e (c_value secret) = Inr ?c"
    by (simp add: encrypt_value_ok)
  obtain st2 where la: "log_audit e (user_id user) ''CREATE'' (secrets_id_seq (db st))
             (email user) ?st1 = (Inr (), st2)" and d2: "db st2 = db ?st1"
    using log_audit_returns by blast
  obtain t where pt: "parse_tags (tags_column e (json_dumps (c_tags secret))) = Inr t"
    using parse_tags_returns by blast
  from A enc la pt d2
  show "\<exists>row.
         secrets (db (snd (create_secret e secret user st))) = secrets (db st) @ [row] \<and>
         version row = 1 \<and> owner_id row = user_id user \<and> deleted_at row = None \<and>
         encrypted_value row = fernet_encrypt e (c_value secret) \<and>
         (\<exists>resp. fst (create_secret e secret user st) = Inr resp \<and>
                 r_version resp = 1 \<and> r_id resp = row_id row)"
    by (intro exI [of _ ?row]) (simp add: create_secret_def Let_def)
qed

text \<open>
  C5, witness: in the sample store the caller with role \<open>user\<close> is refused and nothing
  changes; the developer's call returns version 1 and adds one row.
\<close>

theorem create_forbidden_iff_role_user_witness:
  "fst (create_secret example_env example_create guest_caller example_system) = Inl ForbiddenError \<and>
   snd (create_secret example_env example_create guest_caller example_system) = example_system \<and>
   role developer_caller \<noteq> ''user'' \<and>
   (\<exists>row.
      secrets (db (snd (create_secret example_env example_create developer_caller example_system)))
        = secrets (db example_system) @ [row] \<and>
      version row = 1 \<and> owner_id row = 2 \<and>
      (\<exists>resp. fst (create_secret example_env example_create developer_caller example_system)
                = Inr resp \<and> r_version resp = 1 \<and> r_id resp = row_id row))"
proof -
  have g: "role guest_caller = ''user''" by (simp add: guest_caller_def)
  have d: "role developer_caller \<noteq> ''user'' \<and> utf8_valid (c_value example_create) \<and>
    utf8_valid (fernet_encrypt example_env (c_value example_create))"
    by (simp add: developer_caller_def example_create_def example_env_def)
  have u: "user_id developer_caller = 2" by (simp add: developer_caller_def)
  from create_forbidden_iff_role_user
         [of example_env example_create guest_caller example_system] g
  have 1: "fst (create_secret example_env example_create guest_caller example_system)
             = Inl ForbiddenError"
    and 2: "snd (create_secret example_env example_create guest_caller example_system)
             = example_system"
    by blast+
  from create_forbidden_iff_role_user
         [of example_env example_create developer_caller example_system] d u
  have 3: "\<exists>row.
      secrets (db (snd (create_secret example_env example_create developer_caller example_system)))
        = secrets (db example_system) @ [row] \<and>
      version row = 1 \<and> owner_id row = 2 \<and>
      (\<exists>resp. fst (create_secret example_env example_create developer_caller example_system)
                = Inr resp \<and> r_version resp = 1 \<and> r_id resp = row_id row)"
    by auto
  from 1 2 3 d show ?thesis by blast
qed

section \<open>Update: only the owner\<close>

text \<open>
  Claim C3. With \<open>secrets.id\<close> a key, \<open>update_secret\<close> fails with \<open>NotFoundError\<close>
  exactly when the secret does not exist, is soft-deleted or has another owner than the
  caller, whatever the caller's role, \<open>admin\<close> included; it is the one error for the
  three cases, and the store and the audit trail are then as before.
\<close>

theorem update_only_by_owner:
  assumes "primary_key (db st)"
  shows "(fst (update_secret e sid upd user st) = Inl NotFoundError \<longleftrightarrow>
            missing_for user (lookup_secret (db st) sid)) \<and>
         (missing_for user (lookup_secret (db st) sid) \<longrightarrow>
            update_secret e sid upd user st = (Inl NotFoundError, st))"
proof -
  let ?f = "find (\<lambda>r. row_id r = sid \<and> owner_id r = user_id user \<and> deleted_at r = None)
              (secrets (db st))"
  have m: "missing_for user (lookup_secret (db st) sid) \<longleftrightarrow> ?f = None"
    by (auto simp: find_owned_live [OF assms] missing_for_def split: option.splits)
  show ?thesis
  proof (cases ?f)
    case None
    with m update_secret_not_found [OF None, of e upd] show ?thesis by simp
  next
    case (Some ex)
    with m update_secret_found [OF Some, of e upd] show ?thesis by simp
  qed
qed

text \<open>
  C3, witness: in the sample store the admin's update of the developer's secret, the
  owner's update of the soft-deleted secret and an update of an id that does not exist
  all return the same error and change nothing.
\<close>

theorem update_only_by_owner_witness:
  "primary_key (db example_system) \<and>
   role admin_caller = ''admin'' \<and>
   update_secret example_env 1 example_update admin_caller example_system
     = (Inl NotFoundError, example_system) \<and>
   update_secret example_env 2 example_update developer_caller example_system
     = (Inl NotFoundError, example_system) \<and>
   update_secret example_env 99 example_update developer_caller example_system
     = (Inl NotFoundError, example_system)"
proof -
  have 1: "missing_for admin_caller (lookup_secret (db example_system) 1)"
    by (simp add: example_lookup missing_for_def example_db_def admin_caller_def)
  have 2: "missing_for developer_caller (lookup_secret (db example_system) 2)"
    by (simp add: example_lookup missing_for_def example_db_def)
  have 3: "missing_for developer_caller (lookup_secret (db example_system) 99)"
    by (simp add: example_lookup missing_for_def)
  have 4: "role admin_caller = ''admin''" by (simp add: admin_caller_def)
  from update_only_by_owner [OF example_primary_key] 1 2 3 4 example_primary_key
  show ?thesis by blast
qed

section \<open>Get: one error for three conditions\<close>

text \<open>
  Claim C4. With \<open>secrets.id\<close> a key and every owner a registered user,
  \<open>get_secret\<close> fails with \<open>NotFoundError\<close> exactly when the secret does not exist, is
  soft-deleted, or is not the caller's while the caller is not \<open>admin\<close>. The three
  cases give the same result and leave the same state (no audit call is made), so the
  caller cannot tell them apart.
\<close>

theorem get_not_found_iff_hidden:
  assumes "primary_key (db st)" and "owners_registered (db st)"
  shows "(fst (get_secret e sid show_value user st) = Inl NotFoundError \<longleftrightarrow>
            hidden_from user (lookup_secret (db st) sid)) \<and>
         (hidden_from user (lookup_secret (db st) sid) \<longrightarrow>
            get_secret e sid show_value user st = (Inl NotFoundError, st))"
proof (cases "visible_rows user sid (db st) = []")
  case True
  with visible_rows_empty [OF assms, of user sid] get_secret_none [OF True, of e show_value]
  show ?thesis by simp
next
  case False
  with visible_rows_empty [OF assms, of user sid] get_secret_some [OF False, of e show_value]
  show ?thesis by simp
qed

text \<open>
  C4, witness: in the sample store an id that does not exist, the soft-deleted secret
  (for its owner and for the admin) and the developer's secret asked for by the guest
  give the same result and state; the admin and the owner do read the live secret.
\<close>

theorem get_not_found_iff_hidden_witness:
  "primary_key (db example_system) \<and> owners_registered (db example_system) \<and>
   get_secret example_env 99 True developer_caller example_system
     = (Inl NotFoundError, example_system) \<and>
   get_secret example_env 2 True developer_caller example_system
     = (Inl NotFoundError, example_system) \<and>
   get_secret example_env 1 True guest_caller example_system
     = (Inl NotFoundError, example_system) \<and>
   get_secret example_env 2 True admin_caller example_system
     = (Inl NotFoundError, example_system) \<and>
   fst (get_secret example_env 1 True admin_caller example_system) \<noteq> Inl NotFoundError \<and>
   fst (get_secret example_env 1 True developer_caller example_system) \<noteq> Inl NotFoundError"
proof -
  note t = get_not_found_iff_hidden [OF example_primary_key example_owners_registered]
  have 1: "hidden_from developer_caller (lookup_secret (db example_system) 99)"
    by (simp add: example_lookup hidden_from_def)
  have 2: "hidden_from developer_caller (lookup_secret (db example_system) 2)"
    by (simp add: example_lookup hidden_from_def example_db_def)
  have 3: "hidden_from guest_caller (lookup_secret (db example_system) 1)"
    by (simp add: example_lookup hidden_from_def example_db_def guest_caller_def)
  have 4: "hidden_from admin_caller (lookup_secret (db example_system) 2)"
    by (simp add: example_lookup hidden_from_def example_db_def)
  have 5: "\<not> hidden_from admin_caller (lookup_secret (db example_system) 1)"
    by (simp add: example_lookup hidden_from_def example_db_def admin_caller_def)
  have 6: "\<not> hidden_from developer_caller (lookup_secret (db example_system) 1)"
    by (simp add: example_lookup hidden_from_def example_db_def developer_caller_def)
  from t [of example_env 99 True developer_caller] 1
  have a: "get_secret example_env 99 True developer_caller example_system
     = (Inl NotFoundError, example_system)" by blast
  from t [of example_env 2 True developer_caller] 2
  have b: "get_secret example_env 2 True developer_caller example_system
     = (Inl NotFoundError, example_system)" by blast
  from t [of example_env 1 True guest_caller] 3
  have c: "get_secret example_env 1 True guest_caller example_system
     = (Inl NotFoundError, example_system)" by blast
  from t [of example_env 2 True admin_caller] 4
  have d: "get_secret example_env 2 True admin_caller example_system
     = (Inl NotFoundError, example_system)" by blast
  from t [of example_env 1 True admin_caller] 5
  have e: "fst (get_secret example_env 1 True admin_caller example_system) \<noteq> Inl NotFoundError"
    by blast
  from t [of example_env 1 True developer_caller] 6
  have f: "fst (get_secret example_env 1 True developer_caller example_system) \<noteq> Inl NotFoundError"
    by blast
  from a b c d e f example_primary_key example_owners_registered show ?thesis by blast
qed

section \<open>Delete: a tombstone, never a removal\<close>

text \<open>
  Claim C6. With \<open>secrets.id\<close> a key, \<open>delete_secret\<close> on a secret that does not exist,
  is already soft-deleted or is not the caller's fails with \<open>NotFoundError\<close> and changes
  nothing. On the caller's live secret it succeeds, stamps \<open>deleted_at\<close> on that row and
  no other, and a second delete then fails with \<open>NotFoundError\<close>. In every case the
  table keeps all its rows, in order, with every column but \<open>deleted_at\<close> as it was,
  and the archived versions are untouched.
\<close>

theorem delete_is_soft:
  assumes "primary_key (db st)"
  shows
   "(missing_for user (lookup_secret (db st) sid) \<longrightarrow>
       delete_secret e sid user st = (Inl NotFoundError, st)) \<and>
    (\<forall>r. lookup_secret (db st) sid = Some r \<and> owner_id r = user_id user \<and> deleted_at r = None \<longrightarrow>
       fst (delete_secret e sid user st) = Inr ''Secret deleted successfully'' \<and>
       secrets (db (snd (delete_secret e sid user st)))
         = map (\<lambda>x. if row_id x = sid then x\<lparr>deleted_at := Some (db_now e)\<rparr> else x)
             (secrets (db st)) \<and>
       lookup_secret (db (snd (delete_secret e sid user st))) sid
         = Some (r\<lparr>deleted_at := Some (db_now e)\<rparr>) \<and>
       delete_secret e' sid user (snd (delete_secret e sid user st))
         = (Inl NotFoundError, snd (delete_secret e sid user st))) \<and>
    map (\<lambda>x. x\<lparr>deleted_at := None\<rparr>) (secrets (db (snd (delete_secret e sid user st))))
      = map (\<lambda>x. x\<lparr>deleted_at := None\<rparr>) (secrets (db st)) \<and>
    secret_versions (db (snd (delete_secret e sid user st))) = secret_versions (db st)"
proof (intro conjI allI impI)
  let ?h = "\<lambda>r. row_id r = sid \<and> owner_id r = user_id user \<and> deleted_at r = None"
  let ?st' = "snd (delete_secret e sid user st)"
  {
    assume "missing_for user (lookup_secret (db st) sid)"
    then have "find ?h (secrets (db st)) = None"
      by (auto simp: find_owned_live [OF assms] missing_for_def split: option.splits)
    then show "delete_secret e sid user st = (Inl NotFoundError, st)"
      by (rule delete_secret_none)
  }
  {
    fix r
    assume A: "lookup_secret (db st) sid = Some r \<and> owner_id r = user_id user \<and>
               deleted_at r = None"
    then have f: "find ?h (secrets (db st)) = Some r"
      by (simp add: find_owned_live [OF assms])
    note ds = delete_secret_some [OF f, of e]
    from ds show "fst (delete_secret e sid user st) = Inr ''Secret deleted successfully''"
      by simp
    from A lookup_secret_in have rin: "r \<in> set (secrets (db st))" "row_id r = sid" by auto
    have "tombstone e sid user x = (if row_id x = sid then x\<lparr>deleted_at := Some (db_now e)\<rparr> else x)"
      if "x \<in> set (secrets (db st))" for x
      using primary_key_same_id [OF assms that rin(1)] rin(2) A
      by (auto simp: tombstone_def)
    with ds show "secrets (db ?st')
         = map (\<lambda>x. if row_id x = sid then x\<lparr>deleted_at := Some (db_now e)\<rparr> else x)
             (secrets (db st))"
      by simp
    from ds A rin have l': "lookup_secret (db ?st') sid = Some (r\<lparr>deleted_at := Some (db_now e)\<rparr>)"
      by (simp add: lookup_secret_map [OF tombstone_row_id] tombstone_def)
    then show "lookup_secret (db ?st') sid = Some (r\<lparr>deleted_at := Some (db_now e)\<rparr>)" .
    from ds assms have pk': "primary_key (db ?st')"
      by (simp add: primary_key_map [OF tombstone_row_id])
    from l' have "find ?h (secrets (db ?st')) = None"
      by (simp add: find_owned_live [OF pk'])
    then show "delete_secret e' sid user ?st' = (Inl NotFoundError, ?st')"
      by (rule delete_secret_none)
  }
  from delete_secret_db [of e sid user st]
  show "map (\<lambda>x. x\<lparr>deleted_at := None\<rparr>) (secrets (db ?st'))
      = map (\<lambda>x. x\<lparr>deleted_at := None\<rparr>) (secrets (db st))"
    by (auto simp: tombstone_forget)
  from delete_secret_db [of e sid user st]
  show "secret_versions (db ?st') = secret_versions (db st)"
    by auto
qed

text \<open>
  C6, witness: in the sample store the three failing deletes change nothing; the owner's
  delete of secret 1 keeps both rows and stamps the first; deleting it again fails.
\<close>

theorem delete_is_soft_witness:
  "primary_key (db example_system) \<and>
   delete_secret example_env 2 developer_caller example_system
     = (Inl NotFoundError, example_system) \<and>
   delete_secret example_env 99 developer_caller example_system
     = (Inl NotFoundError, example_system) \<and>
   delete_secret example_env 1 admin_caller example_system
     = (Inl NotFoundError, example_system) \<and>
   fst (delete_secret example_env 1 developer_caller example_system)
     = Inr ''Secret deleted successfully'' \<and>
   map row_id (secrets (db (snd (delete_secret example_env 1 developer_caller example_system))))
     = [1, 2] \<and>
   map deleted_at (secrets (db (snd (delete_secret example_env 1 developer_caller example_system))))
     = [Some 1000, Some 950] \<and>
   delete_secret example_env 1 developer_caller
       (snd (delete_secret example_env 1 developer_caller example_system))
     = (Inl NotFoundError, snd (delete_secret example_env 1 developer_caller example_system))"
proof -
  note t = delete_is_soft [OF example_primary_key]
  have 1: "missing_for developer_caller (lookup_secret (db example_system) 2)"
    by (simp add: example_lookup missing_for_def example_db_def)
  have 2: "missing_for developer_caller (lookup_secret (db example_system) 99)"
    by (simp add: example_lookup missing_for_def)
  have 3: "missing_for admin_caller (lookup_secret (db example_system) 1)"
    by (simp add: example_lookup missing_for_def example_db_def admin_caller_def)
  have 4: "lookup_secret (db example_system) 1 = Some (hd (secrets example_db)) \<and>
           owner_id (hd (secrets example_db)) = user_id developer_caller \<and>
           deleted_at (hd (secrets example_db)) = None"
    by (simp add: example_lookup example_db_def developer_caller_def)
  from t [of developer_caller 2 example_env] 1
  have a: "delete_secret example_env 2 developer_caller example_system
     = (Inl NotFoundError, example_system)" by blast
  from t [of developer_caller 99 example_env] 2
  have b: "delete_secret example_env 99 developer_caller example_system
     = (Inl NotFoundError, example_system)" by blast
  from t [of admin_caller 1 example_env] 3
  have c: "delete_secret example_env 1 admin_caller example_system
     = (Inl NotFoundError, example_system)" by blast
  from t [of developer_caller 1 example_env example_env] 4
  have d: "fst (delete_secret example_env 1 developer_caller example_system)
     = Inr ''Secret deleted successfully''"
    and e: "secrets (db (snd (delete_secret example_env 1 developer_caller example_system)))
         = map (\<lambda>x. if row_id x = 1 then x\<lparr>deleted_at := Some (db_now example_env)\<rparr> else x)
             (secrets (db example_system))"
    and f: "delete_secret example_env 1 developer_caller
       (snd (delete_secret example_env 1 developer_caller example_system))
     = (Inl NotFoundError, snd (delete_secret example_env 1 developer_caller example_system))"
    by blast+
  from e have g: "map row_id (secrets (db (snd (delete_secret example_env 1 developer_caller example_system))))
     = [1, 2]"
    and h: "map deleted_at (secrets (db (snd (delete_secret example_env 1 developer_caller example_system))))
     = [Some 1000, Some 950]"
    by (simp_all add: example_system_def example_db_def example_env_def)
  from a b c d f g h example_primary_key show ?thesis by blast
qed

section \<open>Update, delete and rotate: ownership, not role\<close>

text \<open>
  Claim C10. For a caller who owns a secret that is not soft-deleted, whatever the
  caller's role, the three operations are carried out. \<open>update_secret\<close> (when the
  value it carries, if any, can be encrypted) returns the new version, leaves the row
  with the new ciphertext, description and tags the request carries, and archives the
  old version; \<open>delete_secret\<close> returns and leaves the row with its tombstone;
  \<open>rotate_secret\<close> (when the cipher's token is text) returns the generated value and
  leaves the row with its encryption at the next version. None of the three reads the
  role: replacing it by any other leaves result and state the same. The role is tested
  by \<open>create_secret\<close> alone (C5).
\<close>

theorem owner_of_any_role_may_change:
  assumes "lookup_secret (db st) sid = Some r"
    and "owner_id r = user_id user"
    and "deleted_at r = None"
  shows
   "(update_encryptable e upd \<longrightarrow>
       (\<exists>v. fst (update_secret e sid upd user st) = Inr (''Secret updated successfully'', v)) \<and>
       fst (update_secret e sid upd user st)
         = Inr (''Secret updated successfully'',
                if value_changing upd then version r + 1 else version r) \<and>
       lookup_secret (db (snd (update_secret e sid upd user st))) sid
         = Some (r\<lparr>encrypted_value :=
                     (case u_value upd of
                        None \<Rightarrow> encrypted_value r
                      | Some v \<Rightarrow> if v = [] then encrypted_value r else fernet_encrypt e v),
                   version := (if value_changing upd then version r + 1 else version r),
                   description :=
                     (case u_description upd of None \<Rightarrow> description r | Some d \<Rightarrow> Some d),
                   tags :=
                     (case u_tags upd of None \<Rightarrow> tags r | Some ts \<Rightarrow> json_dumps (Some ts)),
                   updated_at := db_now e\<rparr>) \<and>
       secret_versions (db (snd (update_secret e sid upd user st)))
         = secret_versions (db st) @
           [\<lparr>sv_secret_id = sid, sv_version = version r,
             sv_encrypted_value = encrypted_value r, sv_updated_by = user_id user,
             sv_created_at = db_now e\<rparr>]) \<and>
    fst (delete_secret e sid user st) = Inr ''Secret deleted successfully'' \<and>
    lookup_secret (db (snd (delete_secret e sid user st))) sid
      = Some (r\<lparr>deleted_at := Some (db_now e)\<rparr>) \<and>
    (utf8_valid (fernet_encrypt e (new_password e)) \<longrightarrow>
       fst (rotate_secret e sid user st)
         = Inr (''Secret rotated successfully'', new_password e) \<and>
       lookup_secret (db (snd (rotate_secret e sid user st))) sid
         = Some (r\<lparr>encrypted_value := fernet_encrypt e (new_password e),
                   version := version r + 1, updated_at := db_now e\<rparr>) \<and>
       secret_versions (db (snd (rotate_secret e sid user st)))
         = secret_versions (db st) @
           [\<lparr>sv_secret_id = sid, sv_version = version r,
             sv_encrypted_value = encrypted_value r, sv_updated_by = user_id user,
             sv_created_at = db_now e\<rparr>]) \<and>
    update_secret e sid upd (user\<lparr>role := any_role\<rparr>) st = update_secret e sid upd user st \<and>
    delete_secret e sid (user\<lparr>role := any_role\<rparr>) st = delete_secret e sid user st \<and>
    rotate_secret e sid (user\<lparr>role := any_role\<rparr>) st = rotate_secret e sid user st"
proof -
  note f = lookup_find_owned [OF assms]
  have U: "(\<exists>v. fst (update_secret e sid upd user st) = Inr (''Secret updated successfully'', v)) \<and>
       fst (update_secret e sid upd user st)
         = Inr (''Secret updated successfully'',
                if value_changing upd then version r + 1 else version r) \<and>
       lookup_secret (db (snd (update_secret e sid upd user st))) sid
         = Some (r\<lparr>encrypted_value :=
                     (case u_value upd of
                        None \<Rightarrow> encrypted_value r
                      | Some v \<Rightarrow> if v = [] then encrypted_value r else fernet_encrypt e v),
                   version := (if value_changing upd then version r + 1 else version r),
                   description :=
                     (case u_description upd of None \<Rightarrow> description r | Some d \<Rightarrow> Some d),
                   tags :=
                     (case u_tags upd of None \<Rightarrow> tags r | Some ts \<Rightarrow> json_dumps (Some ts)),
                   updated_at := db_now e\<rparr>) \<and>
       secret_versions (db (snd (update_secret e sid upd user st)))
         = secret_versions (db st) @
           [\<lparr>sv_secret_id = sid, sv_version = version r,
             sv_encrypted_value = encrypted_value r, sv_updated_by = user_id user,
             sv_created_at = db_now e\<rparr>]"
    if enc: "update_encryptable e upd"
  proof -
    from enc obtain vs where vs: "value_updates e upd = Inr vs"
      using value_updates_ok by blast
    note u = update_secret_effect [OF assms vs]
    note row = apply_updates_row [OF enc vs, of r]
    have 1: "fst (update_secret e sid upd user st)
         = Inr (''Secret updated successfully'',
                if value_changing upd then version r + 1 else version r)"
      by (subst u) (simp add: row)
    have 2: "lookup_secret (db (snd (update_secret e sid upd user st))) sid
         = Some (apply_updates (db_now e) (set_list upd vs) r)"
      by (subst u) (simp add: lookup_updated_db [OF assms(1,2)])
    have 3: "secret_versions (db (snd (update_secret e sid upd user st)))
         = secret_versions (db st) @
           [\<lparr>sv_secret_id = sid, sv_version = version r,
             sv_encrypted_value = encrypted_value r, sv_updated_by = user_id user,
             sv_created_at = db_now e\<rparr>]"
      by (subst u) (simp add: updated_db_def archived_def)
    from 1 2 [unfolded row] 3 show ?thesis by simp
  qed
  have D1: "fst (delete_secret e sid user st) = Inr ''Secret deleted successfully''"
    using delete_secret_some [OF f] by simp
  have D2: "lookup_secret (db (snd (delete_secret e sid user st))) sid
      = Some (r\<lparr>deleted_at := Some (db_now e)\<rparr>)"
    using delete_secret_some [OF f, of e] assms lookup_secret_in [OF assms(1)]
    by (simp add: lookup_secret_map [OF tombstone_row_id] tombstone_def)
  have R: "fst (rotate_secret e sid user st)
         = Inr (''Secret rotated successfully'', new_password e) \<and>
       lookup_secret (db (snd (rotate_secret e sid user st))) sid
         = Some (r\<lparr>encrypted_value := fernet_encrypt e (new_password e),
                   version := version r + 1, updated_at := db_now e\<rparr>) \<and>
       secret_versions (db (snd (rotate_secret e sid user st)))
         = secret_versions (db st) @
           [\<lparr>sv_secret_id = sid, sv_version = version r,
             sv_encrypted_value = encrypted_value r, sv_updated_by = user_id user,
             sv_created_at = db_now e\<rparr>]"
    if t: "utf8_valid (fernet_encrypt e (new_password e))"
  proof -
    let ?upd = "\<lparr>u_value = Some (new_password e), u_description = None, u_tags = None\<rparr>"
    let ?c = "fernet_encrypt e (new_password e)"
    have v: "value_updates e ?upd = Inr [SetEncryptedValue ?c, IncrementVersion]"
      using t by (simp add: value_updates_def new_password_nonempty encrypt_value_ok
                    new_password_valid)
    have sl: "set_list ?upd [SetEncryptedValue ?c, IncrementVersion]
                = [SetEncryptedValue ?c, IncrementVersion, SetUpdatedAtNow]"
      by (simp add: set_list_def)
    note u = update_secret_effect [OF assms v, unfolded sl]
    have ap: "apply_updates (db_now e) [SetEncryptedValue ?c, IncrementVersion, SetUpdatedAtNow] r
                = r\<lparr>encrypted_value := ?c, version := version r + 1, updated_at := db_now e\<rparr>"
      by (simp add: apply_updates_def)
    have r1: "fst (rotate_secret e sid user st)
         = Inr (''Secret rotated successfully'', new_password e)"
      by (simp add: rotate_secret_unfold u)
    have r2: "lookup_secret (db (snd (rotate_secret e sid user st))) sid
         = Some (r\<lparr>encrypted_value := ?c, version := version r + 1,
                   updated_at := db_now e\<rparr>)"
      by (simp add: rotate_secret_unfold u lookup_updated_db [OF assms(1,2)] ap)
    have r3: "secret_versions (db (snd (rotate_secret e sid user st)))
         = secret_versions (db st) @
           [\<lparr>sv_secret_id = sid, sv_version = version r,
             sv_encrypted_value = encrypted_value r, sv_updated_by = user_id user,
             sv_created_at = db_now e\<rparr>]"
      by (simp add: rotate_secret_unfold u updated_db_def archived_def)
    from r1 r2 r3 show ?thesis by simp
  qed
  have I1: "update_secret e sid upd (user\<lparr>role := any_role\<rparr>) st = update_secret e sid upd user st"
    by (simp add: update_secret_def Let_def
             cong: option.case_cong sum.case_cong prod.case_cong list.case_cong)
  have I2: "delete_secret e sid (user\<lparr>role := any_role\<rparr>) st = delete_secret e sid user st"
    by (simp add: delete_secret_def Let_def
             cong: option.case_cong sum.case_cong prod.case_cong list.case_cong)
  have I3: "rotate_secret e sid (user\<lparr>role := any_role\<rparr>) st = rotate_secret e sid user st"
    by (simp add: rotate_secret_def update_secret_def Let_def
             cong: option.case_cong sum.case_cong prod.case_cong list.case_cong)
  from U D1 D2 R I1 I2 I3 show ?thesis by blast
qed

text \<open>
  C10, witness: the owner of the sample secret, with role \<open>user\<close>, updates it (the
  row then holds the new ciphertext at version 2, version 1 archived), deletes it (the
  row then carries the tombstone) and rotates it.
\<close>

theorem owner_of_any_role_may_change_witness:
  "role demoted_owner = ''user'' \<and>
   fst (update_secret example_env 1 example_update demoted_owner example_system)
     = Inr (''Secret updated successfully'', 2) \<and>
   map_option encrypted_value
     (lookup_secret (db (snd (update_secret example_env 1 example_update demoted_owner
        example_system))) 1) = Some ''gAAAAAp@ss2'' \<and>
   map sv_version
     (secret_versions (db (snd (update_secret example_env 1 example_update demoted_owner
        example_system)))) = [1] \<and>
   fst (delete_secret example_env 1 demoted_owner example_system)
     = Inr ''Secret deleted successfully'' \<and>
   map_option deleted_at
     (lookup_secret (db (snd (delete_secret example_env 1 demoted_owner example_system))) 1)
     = Some (Some 1000) \<and>
   fst (rotate_secret example_env 1 demoted_owner example_system)
     = Inr (''Secret rotated successfully'', new_password example_env) \<and>
   map_option version
     (lookup_secret (db (snd (rotate_secret example_env 1 demoted_owner example_system))) 1)
     = Some 2"
proof -
  have 1: "lookup_secret (db example_system) 1 = Some (hd (secrets example_db))"
    by (rule example_lookup)
  have 2: "owner_id (hd (secrets example_db)) = user_id demoted_owner"
    by (simp add: example_db_def demoted_owner_def)
  have 3: "deleted_at (hd (secrets example_db)) = None"
    by (simp add: example_db_def)
  have 4: "update_encryptable example_env example_update"
    by (simp add: update_encryptable_def encryptable_def example_update_def example_env_def)
  have 5: "role demoted_owner = ''user''" by (simp add: demoted_owner_def)
  have vc: "value_changing example_update"
    by (simp add: value_changing_def example_update_def)
  note t = owner_of_any_role_may_change [OF 1 2 3, of example_env example_update]
  from t 4 have u1: "fst (update_secret example_env 1 example_update demoted_owner example_system)
     = Inr (''Secret updated successfully'',
            if value_changing example_update then version (hd (secrets example_db)) + 1
            else version (hd (secrets example_db)))"
    by blast
  have a: "fst (update_secret example_env 1 example_update demoted_owner example_system)
     = Inr (''Secret updated successfully'', 2)"
    by (simp add: u1 vc example_secret_owned(3))
  from t 4 have u2: "lookup_secret (db (snd (update_secret example_env 1 example_update
        demoted_owner example_system))) 1
     = Some ((hd (secrets example_db))
          \<lparr>encrypted_value :=
             (case u_value example_update of
                None \<Rightarrow> encrypted_value (hd (secrets example_db))
              | Some v \<Rightarrow> if v = [] then encrypted_value (hd (secrets example_db))
                         else fernet_encrypt example_env v),
           version := (if value_changing example_update
                       then version (hd (secrets example_db)) + 1
                       else version (hd (secrets example_db))),
           description :=
             (case u_description example_update of
                None \<Rightarrow> description (hd (secrets example_db)) | Some d \<Rightarrow> Some d),
           tags :=
             (case u_tags example_update of
                None \<Rightarrow> tags (hd (secrets example_db)) | Some ts \<Rightarrow> json_dumps (Some ts)),
           updated_at := db_now example_env\<rparr>)"
    by blast
  have b: "map_option encrypted_value
     (lookup_secret (db (snd (update_secret example_env 1 example_update demoted_owner
        example_system))) 1) = Some ''gAAAAAp@ss2''"
    by (subst u2) (simp add: example_update_def example_env_def)
  from t 4 have u3: "secret_versions (db (snd (update_secret example_env 1 example_update
        demoted_owner example_system)))
     = secret_versions (db example_system) @
       [\<lparr>sv_secret_id = 1, sv_version = version (hd (secrets example_db)),
         sv_encrypted_value = encrypted_value (hd (secrets example_db)),
         sv_updated_by = user_id demoted_owner, sv_created_at = db_now example_env\<rparr>]"
    by blast
  have c: "map sv_version
     (secret_versions (db (snd (update_secret example_env 1 example_update demoted_owner
        example_system)))) = [1]"
    by (subst u3) (simp add: example_secret_owned(3) example_system_def example_db_def)
  from t have d: "fst (delete_secret example_env 1 demoted_owner example_system)
     = Inr ''Secret deleted successfully''"
    and d2: "lookup_secret (db (snd (delete_secret example_env 1 demoted_owner example_system))) 1
      = Some ((hd (secrets example_db))\<lparr>deleted_at := Some (db_now example_env)\<rparr>)"
    by blast+
  have e: "map_option deleted_at
     (lookup_secret (db (snd (delete_secret example_env 1 demoted_owner example_system))) 1)
     = Some (Some 1000)"
    by (subst d2) (simp add: example_env_def)
  from t example_token_valid
  have f: "fst (rotate_secret example_env 1 demoted_owner example_system)
     = Inr (''Secret rotated successfully'', new_password example_env)"
    and r2: "lookup_secret (db (snd (rotate_secret example_env 1 demoted_owner example_system))) 1
     = Some ((hd (secrets example_db))
          \<lparr>encrypted_value := fernet_encrypt example_env (new_password example_env),
           version := version (hd (secrets example_db)) + 1,
           updated_at := db_now example_env\<rparr>)"
    by blast+
  have g: "map_option version
     (lookup_secret (db (snd (rotate_secret example_env 1 demoted_owner example_system))) 1)
     = Some 2"
    by (simp add: r2 example_secret_owned(3))
  show ?thesis by (intro conjI) (fact 5 a b c d e f g)+
qed

section \<open>The audit emitter absorbs every failure\<close>

text \<open>
  Claim C9. Whatever \<open>requests.post\<close> does for the audit call (any exception, a
  timeout, any status), \<open>create_secret\<close>, \<open>update_secret\<close>, \<open>delete_secret\<close> and
  \<open>rotate_secret\<close> return the same result and leave the same store as when it
  answers 200; \<open>log_audit\<close> itself always returns and leaves the store alone.
\<close>

theorem audit_delivery_never_matters:
  "fst (create_secret (e\<lparr>requests_post := f\<rparr>) secret user st)
     = fst (create_secret (e\<lparr>requests_post := (\<lambda>ev. Inr 200)\<rparr>) secret user st) \<and>
   db (snd (create_secret (e\<lparr>requests_post := f\<rparr>) secret user st))
     = db (snd (create_secret (e\<lparr>requests_post := (\<lambda>ev. Inr 200)\<rparr>) secret user st)) \<and>
   fst (update_secret (e\<lparr>requests_post := f\<rparr>) sid upd user st)
     = fst (update_secret (e\<lparr>requests_post := (\<lambda>ev. Inr 200)\<rparr>) sid upd user st) \<and>
   db (snd (update_secret (e\<lparr>requests_post := f\<rparr>) sid upd user st))
     = db (snd (update_secret (e\<lparr>requests_post := (\<lambda>ev. Inr 200)\<rparr>) sid upd user st)) \<and>
   fst (delete_secret (e\<lparr>requests_post := f\<rparr>) sid user st)
     = fst (delete_secret (e\<lparr>requests_post := (\<lambda>ev. Inr 200)\<rparr>) sid user st) \<and>
   db (snd (delete_secret (e\<lparr>requests_post := f\<rparr>) sid user st))
     = db (snd (delete_secret (e\<lparr>requests_post := (\<lambda>ev. Inr 200)\<rparr>) sid user st)) \<and>
   fst (rotate_secret (e\<lparr>requests_post := f\<rparr>) sid user st)
     = fst (rotate_secret (e\<lparr>requests_post := (\<lambda>ev. Inr 200)\<rparr>) sid user st) \<and>
   db (snd (rotate_secret (e\<lparr>requests_post := f\<rparr>) sid user st))
     = db (snd (rotate_secret (e\<lparr>requests_post := (\<lambda>ev. Inr 200)\<rparr>) sid user st)) \<and>
   (\<exists>st'. log_audit (e\<lparr>requests_post := f\<rparr>) uid action sid uemail st = (Inr (), st') \<and>
          db st' = db st)"
  using create_secret_post [where e=e and f=f]
    create_secret_post [where e=e and f="\<lambda>ev. Inr 200"]
    update_secret_post [where e=e and f=f]
    update_secret_post [where e=e and f="\<lambda>ev. Inr 200"]
    delete_secret_post [where e=e and f=f]
    delete_secret_post [where e=e and f="\<lambda>ev. Inr 200"]
    rotate_secret_post [where e=e and f=f]
    rotate_secret_post [where e=e and f="\<lambda>ev. Inr 200"]
    log_audit_returns [of "e\<lparr>requests_post := f\<rparr>" uid action sid uemail st]
  by simp

text \<open>
  C9, witness: with an audit service that times out, the owner's update of the sample
  secret still returns version 2 and stores what it stores when the service answers.
\<close>

theorem audit_delivery_never_matters_witness:
  "fst (update_secret (example_env\<lparr>requests_post := (\<lambda>ev. Inl Timeout)\<rparr>) 1 example_update
          developer_caller example_system)
     = Inr (''Secret updated successfully'', 2) \<and>
   fst (update_secret example_env 1 example_update developer_caller example_system)
     = Inr (''Secret updated successfully'', 2) \<and>
   db (snd (update_secret (example_env\<lparr>requests_post := (\<lambda>ev. Inl Timeout)\<rparr>) 1 example_update
              developer_caller example_system))
     = db (snd (update_secret example_env 1 example_update developer_caller example_system)) \<and>
   snd (audit_entry (example_env\<lparr>requests_post := (\<lambda>ev. Inl Timeout)\<rparr>) developer_caller
          ''UPDATE'' 1) = Inl Timeout"
proof -
  have ok: "example_env\<lparr>requests_post := (\<lambda>ev. Inr 200)\<rparr> = example_env"
    by (simp add: example_env_def)
  have v: "value_updates example_env example_update
             = Inr [SetEncryptedValue ''gAAAAAp@ss2'', IncrementVersion]"
    by (simp add: value_updates_def example_update_def encrypt_value_def str_encode_def
          bytes_decode_def example_env_def)
  note u = update_secret_effect [OF example_lookup(1) example_secret_owned(1,2) v]
  have 2: "fst (update_secret example_env 1 example_update developer_caller example_system)
     = Inr (''Secret updated successfully'', 2)"
    by (subst u) (simp add: version_apply_updates set_list_def example_update_def
          example_secret_owned)
  from audit_delivery_never_matters
         [where e = example_env and f = "\<lambda>ev. Inl Timeout" and sid = 1
            and upd = example_update and user = developer_caller and st = example_system]
  have 1: "fst (update_secret (example_env\<lparr>requests_post := (\<lambda>ev. Inl Timeout)\<rparr>) 1
                  example_update developer_caller example_system)
             = fst (update_secret example_env 1 example_update developer_caller example_system)"
    and 3: "db (snd (update_secret (example_env\<lparr>requests_post := (\<lambda>ev. Inl Timeout)\<rparr>) 1
                  example_update developer_caller example_system))
             = db (snd (update_secret example_env 1 example_update developer_caller
                  example_system))"
    by (simp_all add: ok)
  have 4: "snd (audit_entry (example_env\<lparr>requests_post := (\<lambda>ev. Inl Timeout)\<rparr>) developer_caller
          ''UPDATE'' 1) = Inl Timeout"
    by (simp add: audit_entry_def)
  from 1 2 3 4 show ?thesis by simp
qed

section \<open>Rotation\<close>

text \<open>
  Claim C7. The value \<open>rotate_secret\<close> generates has exactly 20 characters, each one
  of the alphabet (lower and upper case letters, digits, and \<open>!@#$%^&*\<close>). Its
  \<open>k\<close>-th character is the element of the alphabet at the index the random source
  draws for it, a fresh draw of \<open>secrets.choice\<close> for each position, and every string
  of 20 characters of the alphabet is generated for some behaviour of the source.
  \<open>rotate_secret\<close> is \<open>update_secret\<close> with that value and nothing else, followed by
  the \<open>ROTATE\<close> audit call. For the owner of a live secret (and a cipher whose token
  is text) it returns the generated value, and the store then holds the encryption of
  that value at the next version, the old ciphertext archived at the old one.
\<close>

theorem rotate_value_and_update_path:
  "length (new_password e) = 20 \<and>
   set (new_password e) \<subseteq> set alphabet \<and>
   (\<forall>k<20. new_password e ! k = alphabet ! (randbelow e k 70 mod 70)) \<and>
   (length w = 20 \<and> set w \<subseteq> set alphabet \<longrightarrow>
      (\<exists>f. new_password (e\<lparr>randbelow := f\<rparr>) = w)) \<and>
   rotate_secret e sid user st =
     (case update_secret e sid
             \<lparr>u_value = Some (new_password e), u_description = None, u_tags = None\<rparr> user st of
        (Inl x, st1) \<Rightarrow> (Inl x, st1)
      | (Inr u, st1) \<Rightarrow>
          (Inr (''Secret rotated successfully'', new_password e),
           st1\<lparr>audit_posts := audit_posts st1 @ [audit_entry e user ''ROTATE'' sid]\<rparr>)) \<and>
   (lookup_secret (db st) sid = Some r \<and> owner_id r = user_id user \<and> deleted_at r = None \<and>
    utf8_valid (fernet_encrypt e (new_password e)) \<longrightarrow>
      fst (rotate_secret e sid user st)
        = Inr (''Secret rotated successfully'', new_password e) \<and>
      lookup_secret (db (snd (rotate_secret e sid user st))) sid
        = Some (r\<lparr>encrypted_value := fernet_encrypt e (new_password e),
                  version := version r + 1, updated_at := db_now e\<rparr>) \<and>
      secret_versions (db (snd (rotate_secret e sid user st)))
        = secret_versions (db st) @
          [\<lparr>sv_secret_id = sid, sv_version = version r,
            sv_encrypted_value = encrypted_value r, sv_updated_by = user_id user,
            sv_created_at = db_now e\<rparr>])"
proof (intro conjI impI)
  show "length (new_password e) = 20" by (rule length_new_password)
  show "set (new_password e) \<subseteq> set alphabet" by (rule new_password_alphabet)
  show "\<forall>k<20. new_password e ! k = alphabet ! (randbelow e k 70 mod 70)"
    by (simp add: new_password_nth)
  show "rotate_secret e sid user st =
     (case update_secret e sid
             \<lparr>u_value = Some (new_password e), u_description = None, u_tags = None\<rparr> user st of
        (Inl x, st1) \<Rightarrow> (Inl x, st1)
      | (Inr u, st1) \<Rightarrow>
          (Inr (''Secret rotated successfully'', new_password e),
           st1\<lparr>audit_posts := audit_posts st1 @ [audit_entry e user ''ROTATE'' sid]\<rparr>))"
    by (rule rotate_secret_unfold)
next
  assume "length w = 20 \<and> set w \<subseteq> set alphabet"
  then show "\<exists>f. new_password (e\<lparr>randbelow := f\<rparr>) = w"
    using new_password_reachable by blast
next
  assume A: "lookup_secret (db st) sid = Some r \<and> owner_id r = user_id user \<and>
    deleted_at r = None \<and> utf8_valid (fernet_encrypt e (new_password e))"
  let ?upd = "\<lparr>u_value = Some (new_password e), u_description = None, u_tags = None\<rparr>"
  let ?c = "fernet_encrypt e (new_password e)"
  from A have l: "lookup_secret (db st) sid = Some r" and o: "owner_id r = user_id user"
    and d: "deleted_at r = None" and t: "utf8_valid ?c"
    by simp_all
  have v: "value_updates e ?upd = Inr [SetEncryptedValue ?c, IncrementVersion]"
    using t by (simp add: value_updates_def new_password_nonempty encrypt_value_ok
                  new_password_valid)
  have sl: "set_list ?upd [SetEncryptedValue ?c, IncrementVersion]
              = [SetEncryptedValue ?c, IncrementVersion, SetUpdatedAtNow]"
    by (simp add: set_list_def)
  note u = update_secret_effect [OF l o d v, unfolded sl]
  have ap: "apply_updates (db_now e) [SetEncryptedValue ?c, IncrementVersion, SetUpdatedAtNow] r
              = r\<lparr>encrypted_value := ?c, version := version r + 1, updated_at := db_now e\<rparr>"
    by (simp add: apply_updates_def)
  show "fst (rotate_secret e sid user st)
          = Inr (''Secret rotated successfully'', new_password e)"
    by (simp add: rotate_secret_unfold u)
  show "lookup_secret (db (snd (rotate_secret e sid user st))) sid
        = Some (r\<lparr>encrypted_value := ?c, version := version r + 1, updated_at := db_now e\<rparr>)"
    by (simp add: rotate_secret_unfold u lookup_updated_db [OF l o] ap)
  show "secret_versions (db (snd (rotate_secret e sid user st)))
        = secret_versions (db st) @
          [\<lparr>sv_secret_id = sid, sv_version = version r,
            sv_encrypted_value = encrypted_value r, sv_updated_by = user_id user,
            sv_created_at = db_now e\<rparr>]"
    by (simp add: rotate_secret_unfold u updated_db_def archived_def)
qed

text \<open>
  C7, witness: the owner rotates the sample secret; the value follows the sample
  source's draws, and another source yields another value.
\<close>

theorem rotate_value_and_update_path_witness:
  "length (new_password example_env) = 20 \<and>
   set (new_password example_env) \<subseteq> set alphabet \<and>
   new_password example_env ! 2 = alphabet ! (randbelow example_env 2 70 mod 70) \<and>
   new_password example_env = ''dkryFMT07%dkryFMT07%'' \<and>
   (\<exists>f. new_password (example_env\<lparr>randbelow := f\<rparr>) = ''Zz9!Zz9!Zz9!Zz9!Zz9!'') \<and>
   fst (rotate_secret example_env 1 developer_caller example_system)
     = Inr (''Secret rotated successfully'', new_password example_env) \<and>
   map_option version
     (lookup_secret (db (snd (rotate_secret example_env 1 developer_caller example_system))) 1)
     = Some 2 \<and>
   map_option encrypted_value
     (lookup_secret (db (snd (rotate_secret example_env 1 developer_caller example_system))) 1)
     = Some (''gAAAAA'' @ new_password example_env)"
proof -
  have h: "lookup_secret (db example_system) 1 = Some (hd (secrets example_db)) \<and>
           owner_id (hd (secrets example_db)) = user_id developer_caller \<and>
           deleted_at (hd (secrets example_db)) = None \<and>
           utf8_valid (fernet_encrypt example_env (new_password example_env))"
    using example_lookup(1) example_secret_owned(1,2) example_token_valid by simp
  have c: "fernet_encrypt example_env (new_password example_env)
             = ''gAAAAA'' @ new_password example_env"
    by (simp add: example_env_def)
  have w: "length ''Zz9!Zz9!Zz9!Zz9!Zz9!'' = 20 \<and>
           set ''Zz9!Zz9!Zz9!Zz9!Zz9!'' \<subseteq> set alphabet"
    by (simp add: alphabet_def)
  have v: "new_password example_env = ''dkryFMT07%dkryFMT07%''"
    by code_simp
  from rotate_value_and_update_path
         [where e = example_env and sid = 1 and user = developer_caller
            and st = example_system and r = "hd (secrets example_db)"
            and w = "''Zz9!Zz9!Zz9!Zz9!Zz9!''"] h w
  have 1: "length (new_password example_env) = 20"
    and 2: "set (new_password example_env) \<subseteq> set alphabet"
    and 5: "\<forall>k<20. new_password example_env ! k
               = alphabet ! (randbelow example_env k 70 mod 70)"
    and 6: "\<exists>f. new_password (example_env\<lparr>randbelow := f\<rparr>) = ''Zz9!Zz9!Zz9!Zz9!Zz9!''"
    and 3: "fst (rotate_secret example_env 1 developer_caller example_system)
              = Inr (''Secret rotated successfully'', new_password example_env)"
    and 4: "lookup_secret
              (db (snd (rotate_secret example_env 1 developer_caller example_system))) 1
            = Some ((hd (secrets example_db))
                \<lparr>encrypted_value := fernet_encrypt example_env (new_password example_env),
                  version := version (hd (secrets example_db)) + 1,
                  updated_at := db_now example_env\<rparr>)"
    by blast+
  from 5 have 7: "new_password example_env ! 2
                    = alphabet ! (randbelow example_env 2 70 mod 70)"
    by simp
  have 8: "map_option version
     (lookup_secret (db (snd (rotate_secret example_env 1 developer_caller example_system))) 1)
     = Some 2"
    by (simp add: 4 example_secret_owned(3))
  have 9: "map_option encrypted_value
     (lookup_secret (db (snd (rotate_secret example_env 1 developer_caller example_system))) 1)
     = Some (''gAAAAA'' @ new_password example_env)"
    by (simp add: 4 c)
  show ?thesis by (intro conjI) (fact 1 2 7 v 6 3 8 9)+
qed

section \<open>Versions and the archive\<close>

text \<open>
  Claim C1, as the code has it. Let the owner of a live secret run a list of updates
  that all return. Then the secret's version has grown by the number of
  value-changing updates among them (from a fresh secret: \<open>N + 1\<close> after \<open>N\<close>), and
  every update of the run, value-changing or metadata-only, has archived exactly one
  row, holding the version and the ciphertext the update found, before any increment:
  the archive has grown by the length of the run. When all updates of the run are
  value-changing and the secret was fresh, the archived versions are \<open>1..N\<close>.
\<close>

theorem versions_follow_updates:
  assumes "lookup_secret (db st) sid = Some r"
    and "owner_id r = user_id user"
    and "deleted_at r = None"
    and "run_updates us sid user st = Inr st'"
  shows
   "(\<exists>r'. lookup_secret (db st') sid = Some r' \<and>
          version r' = version r + int (length (filter value_changing (map snd us))) \<and>
          (list_all value_changing (map snd us) \<and> version r = 1 \<longrightarrow>
             version r' = int (length us) + 1)) \<and>
    map sv_version (versions_of (db st') sid)
      = map sv_version (versions_of (db st) sid) @ archived_versions (version r) (map snd us) \<and>
    length (versions_of (db st') sid) = length (versions_of (db st) sid) + length us \<and>
    (list_all value_changing (map snd us) \<and> version r = 1 \<and> versions_of (db st) sid = [] \<longrightarrow>
       map sv_version (versions_of (db st') sid) = [1..int (length us)]) \<and>
    (\<forall>e upd res st1. update_secret e sid upd user st = (Inr res, st1) \<longrightarrow>
       secret_versions (db st1) = secret_versions (db st) @
         [\<lparr>sv_secret_id = sid, sv_version = version r,
           sv_encrypted_value = encrypted_value r, sv_updated_by = user_id user,
           sv_created_at = db_now e\<rparr>])"
proof -
  from run_updates_versions [OF assms]
  obtain r' where r': "lookup_secret (db st') sid = Some r'"
      "version r' = version r + int (length (filter value_changing (map snd us)))"
    and vs: "map sv_version (versions_of (db st') sid)
           = map sv_version (versions_of (db st) sid) @
             archived_versions (version r) (map snd us)"
    by blast
  have all: "length (filter value_changing (map snd us)) = length us"
    if "list_all value_changing (map snd us)"
    using that by (simp add: list_all_iff)
  have 1: "\<exists>r'. lookup_secret (db st') sid = Some r' \<and>
          version r' = version r + int (length (filter value_changing (map snd us))) \<and>
          (list_all value_changing (map snd us) \<and> version r = 1 \<longrightarrow>
             version r' = int (length us) + 1)"
    using r' all by auto
  from vs have "length (map sv_version (versions_of (db st') sid))
      = length (map sv_version (versions_of (db st) sid) @
                archived_versions (version r) (map snd us))"
    by simp
  then have 2: "length (versions_of (db st') sid) = length (versions_of (db st) sid) + length us"
    by (simp add: length_archived_versions)
  have 3: "map sv_version (versions_of (db st') sid) = [1..int (length us)]"
    if "list_all value_changing (map snd us) \<and> version r = 1 \<and> versions_of (db st) sid = []"
    using that vs archived_versions_all_changing [of "map snd us" 1] by simp
  have 4: "secret_versions (db st1) = secret_versions (db st) @
         [\<lparr>sv_secret_id = sid, sv_version = version r,
           sv_encrypted_value = encrypted_value r, sv_updated_by = user_id user,
           sv_created_at = db_now e\<rparr>]"
    if "update_secret e sid upd user st = (Inr res, st1)" for e upd res st1
    using update_step [OF assms(1-3) that] by (auto simp: archived_def)
  from 1 vs 2 3 4 show ?thesis by blast
qed

text \<open>
  C1, witness: two value-changing updates of the sample secret return, leave it at
  version 3 and archive versions 1 and 2.
\<close>

theorem versions_follow_updates_witness:
  "\<exists>st'. run_updates [(example_env, example_update), (example_env, example_update2)] 1
            developer_caller example_system = Inr st' \<and>
         (\<exists>r'. lookup_secret (db st') 1 = Some r' \<and> version r' = 3) \<and>
         map sv_version (versions_of (db st') 1) = [1, 2]"
proof -
  let ?us = "[(example_env, example_update), (example_env, example_update2)]"
  have enc: "list_all (\<lambda>(e, upd). update_encryptable e upd) ?us"
    by (simp add: update_encryptable_def encryptable_def example_update_def
          example_update2_def example_env_def)
  from run_updates_returns [OF example_lookup(1) example_secret_owned(1,2) enc]
  obtain st' where run: "run_updates ?us 1 developer_caller example_system = Inr st'"
    by blast
  have ch: "list_all value_changing (map snd ?us)"
    by (simp add: value_changing_def example_update_def example_update2_def)
  have none: "versions_of (db example_system) 1 = []"
    by (simp add: versions_of_def example_system_def example_db_def)
  have upto: "[1..int (length ?us)] = [1, 2]"
    by code_simp
  from versions_follow_updates [OF example_lookup(1) example_secret_owned(1,2) run]
    ch none example_secret_owned(3) upto
  have "(\<exists>r'. lookup_secret (db st') 1 = Some r' \<and> version r' = 3) \<and>
         map sv_version (versions_of (db st') 1) = [1, 2]"
    by auto
  with run show ?thesis by (intro exI [of _ st']) simp
qed

text \<open>
  C1, counterexample to the claim as stated: an update of the description alone is not
  value-changing and leaves the sample secret at version 1, yet it archives a row (with
  version 1): after no value-changing update the archive is not empty.
\<close>

theorem metadata_update_archives_counterexample:
  "\<not> value_changing example_note \<and>
   versions_of (db example_system) 1 = [] \<and>
   fst (update_secret example_env 1 example_note developer_caller example_system)
     = Inr (''Secret updated successfully'', 1) \<and>
   map sv_version
     (versions_of
        (db (snd (update_secret example_env 1 example_note developer_caller example_system))) 1)
     = [1]"
proof -
  have v: "value_updates example_env example_note = Inr []"
    by (simp add: value_updates_def example_note_def)
  note u = update_secret_effect [OF example_lookup(1) example_secret_owned(1,2) v]
  have 1: "\<not> value_changing example_note"
    by (simp add: value_changing_def example_note_def)
  have 2: "versions_of (db example_system) 1 = []"
    by (simp add: versions_of_def example_system_def example_db_def)
  have 3: "fst (update_secret example_env 1 example_note developer_caller example_system)
     = Inr (''Secret updated successfully'', 1)"
    by (subst u) (simp add: version_apply_updates set_list_def example_note_def
          example_secret_owned)
  have 4: "map sv_version
     (versions_of
        (db (snd (update_secret example_env 1 example_note developer_caller example_system))) 1)
     = [1]"
    by (subst u)
       (simp add: updated_db_def versions_of_def archived_def example_secret_owned
          example_system_def example_db_def)
  from 1 2 3 4 show ?thesis by blast
qed

end
